theory Spec2Isabelle
  imports Main "HOL-Library.Char_ord" "HOL-Library.List_Lexorder"
begin

section \<open>Control de Gastos: the money-and-date engine\<close>

text \<open>
  A shallow embedding of \<^verbatim>\<open>ControlGastos/control_gastos.py\<close> (the console program) and
  of the functions \<^verbatim>\<open>ControlGastos/control_gastos_app.py\<close> (the desktop form) defines
  differently. Python lists that a function mutates are passed in and returned; every
  exception is a value of \<open>py_error\<close> on the left of a sum.

  A Python \<open>str\<close> is a \<open>string\<close> whose characters are the code points below 256, one
  \<open>char\<close> per code point, compared by code point as Python compares them.
\<close>

subsection \<open>Strings\<close>

datatype py_error = ValueError | InvalidOperation | OverflowError | ZeroDivisionError

text \<open>\<^verbatim>\<open>str.isspace\<close> on one code point below 256.\<close>

definition is_space :: "char \<Rightarrow> bool" where
  "is_space c = (of_char c \<in> {9, 10, 11, 12, 13, 28, 29, 30, 31, 32, 133, 160 :: nat})"

text \<open>\<^verbatim>\<open>s.strip()\<close>: leading and trailing whitespace removed.\<close>

definition py_strip :: "string \<Rightarrow> string" where
  "py_strip s = rev (dropWhile is_space (rev (dropWhile is_space s)))"

text \<open>\<^verbatim>\<open>s.lower()\<close>: the upper-case letters below 256 are A-Z and U+00C0-U+00DE but U+00D7.\<close>

definition lower_char :: "char \<Rightarrow> char" where
  "lower_char c =
     (let n = of_char c :: nat in
      if (65 \<le> n \<and> n \<le> 90) \<or> (192 \<le> n \<and> n \<le> 222 \<and> n \<noteq> 215)
      then char_of (n + 32) else c)"

definition py_lower :: "string \<Rightarrow> string" where
  "py_lower s = map lower_char s"

subsection \<open>Categories and people\<close>

text \<open>
  \<^verbatim>\<open>
  def ensure_unique_add(lst: List[str], item: str) -> bool:
      item = item.strip()
      if not item:
          return False
      if item in lst:
          return False
      lst.append(item)
      lst.sort(key=lambda x: x.lower())
      return True
  \<close>
  The result pairs the returned flag with the list as the call leaves it.
  \<open>list.sort\<close> is stable, as \<open>sort_key\<close> is.
\<close>

definition ensure_unique_add :: "string list \<Rightarrow> string \<Rightarrow> bool \<times> string list" where
  "ensure_unique_add lst item0 =
     (let item = py_strip item0 in
      if item = [] then (False, lst)
      else if item \<in> set lst then (False, lst)
      else (True, sort_key py_lower (lst @ [item])))"

text \<open>
  The form's version tests both rejections in one condition:
  \<^verbatim>\<open>
      if not item or item in lst:
          return False
  \<close>
\<close>

definition ensure_unique_add_app :: "string list \<Rightarrow> string \<Rightarrow> bool \<times> string list" where
  "ensure_unique_add_app lst item0 =
     (let item = py_strip item0 in
      if item = [] \<or> item \<in> set lst then (False, lst)
      else (True, sort_key py_lower (lst @ [item])))"

subsection \<open>Calendar\<close>

text \<open>
  A \<^verbatim>\<open>datetime.date\<close> is a year, a month and a day. Python builds only valid dates
  (\<open>valid_date\<close>: year 1 to 9999, month 1 to 12, day within the month) and raises
  \<open>ValueError\<close> for any other triple, which \<open>make_date\<close> models; \<open>dt.replace(...)\<close>
  builds a date from the changed fields in the same way. The tables and the ordinal
  arithmetic are those of the \<^verbatim>\<open>datetime\<close> module: \<^verbatim>\<open>_is_leap\<close>,
  \<^verbatim>\<open>_DAYS_IN_MONTH\<close>, \<^verbatim>\<open>_DAYS_BEFORE_MONTH\<close>, \<^verbatim>\<open>_days_before_year\<close>,
  \<^verbatim>\<open>_ymd2ord\<close> (here \<open>toordinal\<close>) and \<^verbatim>\<open>_ord2ymd\<close>.
\<close>

datatype date = Date (year: int) (month: int) (day: int)

definition is_leap :: "int \<Rightarrow> bool" where
  "is_leap y = (y mod 4 = 0 \<and> (y mod 100 \<noteq> 0 \<or> y mod 400 = 0))"

definition dim_m :: "bool \<Rightarrow> int \<Rightarrow> int" where
  "dim_m leapyear m =
     [31, 28, 31, 30, 31, 30, 31, 31, 30, 31, 30, 31] ! nat (m - 1) +
     (if m = 2 \<and> leapyear then 1 else 0)"

definition pre_m :: "bool \<Rightarrow> int \<Rightarrow> int" where
  "pre_m leapyear m =
     [0, 31, 59, 90, 120, 151, 181, 212, 243, 273, 304, 334] ! nat (m - 1) +
     (if m > 2 \<and> leapyear then 1 else 0)"

definition days_in_month :: "int \<Rightarrow> int \<Rightarrow> int" where
  "days_in_month y m = dim_m (is_leap y) m"

definition days_before_month :: "int \<Rightarrow> int \<Rightarrow> int" where
  "days_before_month y m = pre_m (is_leap y) m"

definition days_before_year :: "int \<Rightarrow> int" where
  "days_before_year y = (y - 1) * 365 + (y - 1) div 4 - (y - 1) div 100 + (y - 1) div 400"

definition valid_date :: "date \<Rightarrow> bool" where
  "valid_date dt =
     (1 \<le> year dt \<and> year dt \<le> 9999 \<and> 1 \<le> month dt \<and> month dt \<le> 12 \<and>
      1 \<le> day dt \<and> day dt \<le> days_in_month (year dt) (month dt))"

definition make_date :: "int \<Rightarrow> int \<Rightarrow> int \<Rightarrow> py_error + date" where
  "make_date y m d = (if valid_date (Date y m d) then Inr (Date y m d) else Inl ValueError)"

definition toordinal :: "date \<Rightarrow> int" where
  "toordinal dt = days_before_year (year dt) + days_before_month (year dt) (month dt) + day dt"

text \<open>
  \<^verbatim>\<open>_ord2ymd\<close>: the date of an ordinal, by the 400-, 100-, 4- and 1-year cycles, then the
  month estimated as \<^verbatim>\<open>(n + 50) >> 5\<close> and corrected when it is too large.
\<close>

definition month_day_of :: "bool \<Rightarrow> int \<Rightarrow> int \<times> int" where
  "month_day_of leapyear n =
     (let m = (n + 50) div 32;
          preceding = pre_m leapyear m
      in if preceding > n
         then (m - 1, n - (preceding - dim_m leapyear (m - 1)) + 1)
         else (m, n - preceding + 1))"

definition ord2ymd :: "int \<Rightarrow> date" where
  "ord2ymd n0 =
     (let n = n0 - 1;
          n400 = n div 146097; n = n mod 146097;
          n100 = n div 36524; n = n mod 36524;
          n4 = n div 1461; n = n mod 1461;
          n1 = n div 365; n = n mod 365;
          y = n400 * 400 + 1 + n100 * 100 + n4 * 4 + n1
      in if n1 = 4 \<or> n100 = 4 then Date (y - 1) 12 31
         else case month_day_of (n1 = 3 \<and> (n4 \<noteq> 24 \<or> n100 = 3)) n of
                (m, d) \<Rightarrow> Date y m d)"

text \<open>
  \<^verbatim>\<open>date + timedelta(days=k)\<close> goes through the ordinal and raises \<open>OverflowError\<close>
  outside 1 .. 3652059 (the ordinal of 9999-12-31); \<^verbatim>\<open>date - timedelta(days=k)\<close> adds
  \<open>- k\<close>. \<^verbatim>\<open>(a - b).days\<close> is the difference of the ordinals.
\<close>

definition date_add_days :: "date \<Rightarrow> int \<Rightarrow> py_error + date" where
  "date_add_days dt k =
     (let n = toordinal dt + k in
      if 0 < n \<and> n \<le> 3652059 then Inr (ord2ymd n) else Inl OverflowError)"

definition date_diff_days :: "date \<Rightarrow> date \<Rightarrow> int" where
  "date_diff_days a b = toordinal a - toordinal b"

text \<open>
  \<^verbatim>\<open>
  def month_start(dt: date) -> date:
      return dt.replace(day=1)

  def month_end(dt: date) -> date:
      # primer dia del mes siguiente - 1 dia
      if dt.month == 12:
          first_next = dt.replace(year=dt.year + 1, month=1, day=1)
      else:
          first_next = dt.replace(month=dt.month + 1, day=1)
      return first_next - timedelta(days=1)

  def days_remaining_in_month(today: date) -> int:
      end = month_end(today)
      # incluye hoy como "dia por gastar"
      return (end - today).days + 1
  \<close>
\<close>

definition month_start :: "date \<Rightarrow> py_error + date" where
  "month_start dt = make_date (year dt) (month dt) 1"

definition month_end :: "date \<Rightarrow> py_error + date" where
  "month_end dt =
     (case (if month dt = 12 then make_date (year dt + 1) 1 1
            else make_date (year dt) (month dt + 1) 1) of
        Inl err \<Rightarrow> Inl err
      | Inr first_next \<Rightarrow> date_add_days first_next (- 1))"

definition days_remaining_in_month :: "date \<Rightarrow> py_error + int" where
  "days_remaining_in_month today =
     (case month_end today of
        Inl err \<Rightarrow> Inl err
      | Inr end_d \<Rightarrow> Inr (date_diff_days end_d today + 1))"

subsection \<open>Decimal numbers\<close>

text \<open>
  A \<^verbatim>\<open>decimal.Decimal\<close> is a sign, a coefficient and an exponent (the value is
  \<open>\<plusminus> coeff * 10 ^ dexp\<close>), an infinity, or a quiet or signalling NaN with its payload
  digits. The arithmetic is that of the module in its default context: precision 28,
  rounding \<open>ROUND_HALF_EVEN\<close>, the traps of \<open>InvalidOperation\<close> and of division by zero
  set, so that a signalled condition is an exception. The limits of the exponent
  (\<open>Emax = 999999\<close>) are modelled where \<open>quantize\<close> tests them; the other operations
  of the program work on quantized values, whose exponents are far from them.
\<close>

datatype decimal =
    Finite (dsign: bool) (coeff: nat) (dexp: int)
  | Infinity bool
  | NaN bool bool string

datatype rounding = ROUND_HALF_UP | ROUND_HALF_EVEN

definition prec :: nat where
  "prec = 28"

definition is_digit :: "char \<Rightarrow> bool" where
  "is_digit c = (48 \<le> (of_char c :: nat) \<and> (of_char c :: nat) \<le> 57)"

definition digit_val :: "char \<Rightarrow> nat" where
  "digit_val c = of_char c - 48"

definition digit_char :: "nat \<Rightarrow> char" where
  "digit_char n = char_of (48 + n)"

text \<open>\<^verbatim>\<open>int(s)\<close> on a string of digits, and \<^verbatim>\<open>str(n)\<close> on a natural number.\<close>

definition int_of_digits :: "string \<Rightarrow> nat" where
  "int_of_digits ds = foldl (\<lambda>n c. 10 * n + digit_val c) 0 ds"

fun str_nat :: "nat \<Rightarrow> string" where
  "str_nat n = (if n < 10 then [digit_char n] else str_nat (n div 10) @ [digit_char (n mod 10)])"

declare str_nat.simps [simp del]

text \<open>The number of digits of the coefficient: \<^verbatim>\<open>len(self._int)\<close>.\<close>

fun ndigits :: "nat \<Rightarrow> nat" where
  "ndigits n = (if n < 10 then 1 else Suc (ndigits (n div 10)))"

declare ndigits.simps [simp del]

text \<open>
  Rounding a coefficient \<open>c\<close> to a multiple of \<open>m\<close> (a power of ten): the digits dropped
  are \<open>c mod m\<close>. \<open>ROUND_HALF_UP\<close> rounds up when the first dropped digit is 5 or more;
  \<open>ROUND_HALF_EVEN\<close> rounds an exact half to the even neighbour.
\<close>

definition round_div :: "rounding \<Rightarrow> nat \<Rightarrow> nat \<Rightarrow> nat" where
  "round_div rnd c m =
     (let q = c div m; r = c mod m in
      case rnd of
        ROUND_HALF_UP \<Rightarrow> if 2 * r \<ge> m then q + 1 else q
      | ROUND_HALF_EVEN \<Rightarrow> if 2 * r > m \<or> (2 * r = m \<and> odd q) then q + 1 else q)"

text \<open>\<^verbatim>\<open>Decimal._rescale(exp, rounding)\<close> on the coefficient: pad with zeros, or round.\<close>

definition rescale :: "rounding \<Rightarrow> nat \<Rightarrow> int \<Rightarrow> int \<Rightarrow> nat" where
  "rescale rnd c e target =
     (if e \<ge> target then c * 10 ^ nat (e - target)
      else round_div rnd c (10 ^ nat (target - e)))"

text \<open>
  \<^verbatim>\<open>Decimal._fix(context)\<close>: a coefficient of more than 28 digits is rounded to 28
  (half even); when the rounding carries into a 29th digit, the last digit (a zero) is
  dropped.
\<close>

definition dec_fix :: "bool \<Rightarrow> nat \<Rightarrow> int \<Rightarrow> decimal" where
  "dec_fix s c e =
     (if ndigits c > prec
      then let k = ndigits c - prec;
               c' = round_div ROUND_HALF_EVEN c (10 ^ k)
           in if ndigits c' > prec then Finite s (c' div 10) (e + int k + 1)
              else Finite s c' (e + int k)
      else Finite s c e)"

text \<open>\<^verbatim>\<open>Decimal._fix_nan\<close>: a payload longer than the precision keeps its last 28 digits.\<close>

definition fix_nan :: "string \<Rightarrow> string" where
  "fix_nan p =
     (if length p > prec then dropWhile (\<lambda>c. c = CHR ''0'') (drop (length p - prec) p) else p)"

text \<open>
  \<^verbatim>\<open>Decimal._check_nans\<close>: a signalling NaN operand raises, a quiet one is the result
  (the first operand's before the second's).
\<close>

definition check_nans :: "decimal \<Rightarrow> decimal \<Rightarrow> (py_error + decimal) option" where
  "check_nans x y =
     (case (x, y) of
        (NaN s True p, _) \<Rightarrow> Some (Inl InvalidOperation)
      | (NaN s False p, NaN s' True p') \<Rightarrow> Some (Inl InvalidOperation)
      | (NaN s False p, _) \<Rightarrow> Some (Inr (NaN s False (fix_nan p)))
      | (_, NaN s' True p') \<Rightarrow> Some (Inl InvalidOperation)
      | (_, NaN s' False p') \<Rightarrow> Some (Inr (NaN s' False (fix_nan p')))
      | _ \<Rightarrow> None)"

text \<open>
  \<^verbatim>\<open>x.quantize(Decimal("0.01"), rounding)\<close>. It raises \<open>InvalidOperation\<close> on an
  infinity, and when the result would need more than 28 digits.
\<close>

definition quantize :: "rounding \<Rightarrow> decimal \<Rightarrow> py_error + decimal" where
  "quantize rnd x =
     (case x of
        NaN s sig p \<Rightarrow> if sig then Inl InvalidOperation else Inr (NaN s False (fix_nan p))
      | Infinity s \<Rightarrow> Inl InvalidOperation
      | Finite s c e \<Rightarrow>
          if c = 0 then Inr (Finite s 0 (- 2))
          else if int (ndigits c) + e - 1 > 999999 then Inl InvalidOperation
          else if int (ndigits c) + e - 1 - (- 2) + 1 > int prec then Inl InvalidOperation
          else let c' = rescale rnd c e (- 2) in
               if ndigits c' > prec then Inl InvalidOperation else Inr (Finite s c' (- 2)))"

text \<open>
  \<^verbatim>\<open>x + y\<close>: the exact sum at the smaller exponent, then \<open>dec_fix\<close>. A zero sum is
  negative only when both operands are negative zeros.
\<close>

definition signed :: "bool \<Rightarrow> nat \<Rightarrow> int" where
  "signed s c = (if s then - int c else int c)"

definition dec_add :: "decimal \<Rightarrow> decimal \<Rightarrow> py_error + decimal" where
  "dec_add x y =
     (case check_nans x y of
        Some r \<Rightarrow> r
      | None \<Rightarrow>
         (case (x, y) of
            (Infinity s, Infinity s') \<Rightarrow> if s \<noteq> s' then Inl InvalidOperation else Inr (Infinity s)
          | (Infinity s, _) \<Rightarrow> Inr (Infinity s)
          | (_, Infinity s') \<Rightarrow> Inr (Infinity s')
          | (Finite s1 c1 e1, Finite s2 c2 e2) \<Rightarrow>
              let e = min e1 e2;
                  v = signed s1 (c1 * 10 ^ nat (e1 - e)) + signed s2 (c2 * 10 ^ nat (e2 - e))
              in if v = 0 then Inr (dec_fix (s1 \<and> s2) 0 e)
                 else Inr (dec_fix (v < 0) (nat \<bar>v\<bar>) e)))"

text \<open>\<^verbatim>\<open>x - y\<close> is \<^verbatim>\<open>x + y.copy_negate()\<close>, after the test for NaNs.\<close>

definition copy_negate :: "decimal \<Rightarrow> decimal" where
  "copy_negate x =
     (case x of Finite s c e \<Rightarrow> Finite (\<not> s) c e | Infinity s \<Rightarrow> Infinity (\<not> s)
      | NaN s sig p \<Rightarrow> NaN (\<not> s) sig p)"

definition dec_sub :: "decimal \<Rightarrow> decimal \<Rightarrow> py_error + decimal" where
  "dec_sub x y =
     (case check_nans x y of
        Some r \<Rightarrow> r
      | None \<Rightarrow> dec_add x (copy_negate y))"

text \<open>\<^verbatim>\<open>Decimal(n)\<close> for an integer \<open>n\<close>.\<close>

definition dec_of_int :: "int \<Rightarrow> decimal" where
  "dec_of_int n = Finite (n < 0) (nat \<bar>n\<bar>) 0"

text \<open>
  \<^verbatim>\<open>x / y\<close> (\<^verbatim>\<open>Decimal.__truediv__\<close>). The quotient of the coefficients is
  computed to 29 or 30 digits; when the division is inexact, a last digit 0 or 5 is
  bumped so that \<open>dec_fix\<close> rounds the true quotient; when it is exact, trailing zeros are
  removed while the exponent is below the ideal one.
\<close>

function strip_zeros :: "nat \<Rightarrow> int \<Rightarrow> int \<Rightarrow> nat \<times> int" where
  "strip_zeros q e ideal =
     (if e < ideal \<and> q mod 10 = 0 then strip_zeros (q div 10) (e + 1) ideal else (q, e))"
  by pat_completeness auto
termination
  by (relation "measure (\<lambda>(q, e, ideal). nat (ideal - e))") auto

declare strip_zeros.simps [simp del]

definition dec_truediv :: "decimal \<Rightarrow> decimal \<Rightarrow> py_error + decimal" where
  "dec_truediv x y =
     (case check_nans x y of
        Some r \<Rightarrow> r
      | None \<Rightarrow>
         (case (x, y) of
            (Infinity s, Infinity s') \<Rightarrow> Inl InvalidOperation
          | (Infinity s, Finite s2 c2 e2) \<Rightarrow> Inr (Infinity (s \<noteq> s2))
          | (Finite s1 c1 e1, Infinity s') \<Rightarrow> Inr (Finite (s1 \<noteq> s') 0 (- 1000026))
          | (Finite s1 c1 e1, Finite s2 c2 e2) \<Rightarrow>
              if c2 = 0 then (if c1 = 0 then Inl InvalidOperation else Inl ZeroDivisionError)
              else if c1 = 0 then Inr (dec_fix (s1 \<noteq> s2) 0 (e1 - e2))
              else
                let shift = int (ndigits c2) - int (ndigits c1) + int prec + 1;
                    e = e1 - e2 - shift;
                    n = (if shift \<ge> 0 then c1 * 10 ^ nat shift else c1);
                    m = (if shift \<ge> 0 then c2 else c2 * 10 ^ nat (- shift));
                    q = n div m;
                    r = n mod m;
                    (q', e') = (if r \<noteq> 0 then (if q mod 5 = 0 then q + 1 else q, e)
                                else strip_zeros q e (e1 - e2))
                in Inr (dec_fix (s1 \<noteq> s2) q' e')))"

text \<open>
  \<^verbatim>\<open>Decimal(s)\<close> for a string: surrounding whitespace and every underscore are
  removed; then an optional sign and either digits with an optional point and an optional
  exponent, or \<open>Inf\<close>, \<open>Infinity\<close>, \<open>NaN\<close> or \<open>sNaN\<close> (in any case, the NaNs with payload
  digits). \<open>None\<close> is the \<open>InvalidOperation\<close> of a string outside this grammar.
\<close>

definition split_sign :: "string \<Rightarrow> bool \<times> string" where
  "split_sign s =
     (case s of
        [] \<Rightarrow> (False, [])
      | c # r \<Rightarrow> if c = CHR ''-'' then (True, r) else if c = CHR ''+'' then (False, r) else (False, s))"

definition parse_exponent :: "string \<Rightarrow> int option" where
  "parse_exponent s =
     (let (neg, ds) = split_sign s in
      if ds \<noteq> [] \<and> list_all is_digit ds
      then Some (if neg then - int (int_of_digits ds) else int (int_of_digits ds))
      else None)"

definition parse_number :: "string \<Rightarrow> (nat \<times> int) option" where
  "parse_number s =
     (let ip = takeWhile is_digit s;
          r1 = dropWhile is_digit s;
          (fp, r2) = (case r1 of
                        [] \<Rightarrow> ([], [])
                      | c # r \<Rightarrow> if c = CHR ''.'' then (takeWhile is_digit r, dropWhile is_digit r)
                                 else ([], r1))
      in if ip = [] \<and> fp = [] then None
         else case r2 of
                [] \<Rightarrow> Some (int_of_digits (ip @ fp), - int (length fp))
              | c # r \<Rightarrow>
                  if c = CHR ''e'' \<or> c = CHR ''E''
                  then (case parse_exponent r of
                          None \<Rightarrow> None
                        | Some x \<Rightarrow> Some (int_of_digits (ip @ fp), x - int (length fp)))
                  else None)"

definition parse_special :: "bool \<Rightarrow> string \<Rightarrow> decimal option" where
  "parse_special sg s =
     (let l = map lower_char s in
      if l = ''inf'' \<or> l = ''infinity'' then Some (Infinity sg)
      else if take 3 l = ''nan'' \<and> list_all is_digit (drop 3 s)
      then Some (NaN sg False (dropWhile (\<lambda>c. c = CHR ''0'') (drop 3 s)))
      else if take 4 l = ''snan'' \<and> list_all is_digit (drop 4 s)
      then Some (NaN sg True (dropWhile (\<lambda>c. c = CHR ''0'') (drop 4 s)))
      else None)"

definition parse_decimal :: "string \<Rightarrow> decimal option" where
  "parse_decimal s =
     (let (sg, u) = split_sign (filter (\<lambda>c. c \<noteq> CHR ''_'') (py_strip s)) in
      case parse_number u of
        Some (c, e) \<Rightarrow> Some (Finite sg c e)
      | None \<Rightarrow> parse_special sg u)"

text \<open>
  \<^verbatim>\<open>
  def d(value: str | int | float | Decimal) -> Decimal:
      """Convierte a Decimal con 2 decimales."""
      try:
          dec = Decimal(str(value))
      except InvalidOperation:
          raise ValueError("Numero invalido.")
      return dec.quantize(Decimal("0.01"), rounding=ROUND_HALF_UP)
  \<close>
  on a string (the program passes strings only). The \<open>InvalidOperation\<close> of \<open>quantize\<close> is
  raised outside the \<open>try\<close> and is not turned into a \<open>ValueError\<close>.
\<close>

definition d :: "string \<Rightarrow> py_error + decimal" where
  "d v =
     (case parse_decimal v of
        None \<Rightarrow> Inl ValueError
      | Some dec \<Rightarrow> quantize ROUND_HALF_UP dec)"

text \<open>
  The form's version replaces every comma by a point first:
  \<^verbatim>\<open>
      dec = Decimal(str(x).replace(",", "."))
  \<close>
  The console program does the same replacement in \<open>input_decimal\<close>, before it calls \<open>d\<close>:
  \<^verbatim>\<open>
      s = input(prompt).strip().replace(",", ".")
      try:
          return d(s)
      except ValueError:
  \<close>
\<close>

definition replace_comma :: "string \<Rightarrow> string" where
  "replace_comma s = map (\<lambda>c. if c = CHR '','' then CHR ''.'' else c) s"

definition d_app :: "string \<Rightarrow> py_error + decimal" where
  "d_app x =
     (case parse_decimal (replace_comma x) of
        None \<Rightarrow> Inl ValueError
      | Some dec \<Rightarrow> quantize ROUND_HALF_UP dec)"

definition input_decimal_parse :: "string \<Rightarrow> py_error + decimal" where
  "input_decimal_parse line = d (replace_comma (py_strip line))"

text \<open>
  \<^verbatim>\<open>str(x)\<close> for a Decimal: plain notation when the exponent is at most 0 and the number
  is not smaller than 1E-6, scientific notation otherwise.
\<close>

definition sign_str :: "bool \<Rightarrow> string" where
  "sign_str s = (if s then ''-'' else [])"

definition str_int :: "int \<Rightarrow> string" where
  "str_int n = (if n < 0 then ''-'' @ str_nat (nat (- n)) else str_nat (nat n))"

definition str_decimal :: "decimal \<Rightarrow> string" where
  "str_decimal x =
     (case x of
        Infinity s \<Rightarrow> sign_str s @ ''Infinity''
      | NaN s sig p \<Rightarrow> sign_str s @ (if sig then ''sNaN'' else ''NaN'') @ p
      | Finite s c e \<Rightarrow>
          let ds = str_nat c;
              leftdigits = e + int (length ds);
              dotplace = (if e \<le> 0 \<and> leftdigits > - 6 then leftdigits else 1);
              intpart = (if dotplace \<le> 0 then ''0''
                         else if dotplace \<ge> int (length ds)
                         then ds @ replicate (nat (dotplace - int (length ds))) (CHR ''0'')
                         else take (nat dotplace) ds);
              fracpart = (if dotplace \<le> 0 then ''.'' @ replicate (nat (- dotplace)) (CHR ''0'') @ ds
                          else if dotplace \<ge> int (length ds) then []
                          else ''.'' @ drop (nat dotplace) ds);
              exppart = (if leftdigits = dotplace then []
                         else ''E'' @ (if leftdigits - dotplace \<ge> 0 then ''+'' else [])
                              @ str_int (leftdigits - dotplace))
          in sign_str s @ intpart @ fracpart @ exppart)"

text \<open>
  \<^verbatim>\<open>
  def fmt_money(x: Decimal) -> str:
      return f"${x:,.2f}"
  \<close>
  The format \<^verbatim>\<open>,.2f\<close> rounds to two places (half even), writes the integer part in
  groups of three digits separated by commas, a point and the two decimals, after a minus
  sign for a negative number.
\<close>

fun group_rev :: "string \<Rightarrow> string" where
  "group_rev (a # b # c # x # r) = a # b # c # CHR '','' # group_rev (x # r)"
| "group_rev s = s"

definition group3 :: "string \<Rightarrow> string" where
  "group3 s = rev (group_rev (rev s))"

definition pad2 :: "nat \<Rightarrow> string" where
  "pad2 n = [digit_char (n div 10 mod 10), digit_char (n mod 10)]"

definition format_2f :: "decimal \<Rightarrow> string" where
  "format_2f x =
     (case x of
        Infinity s \<Rightarrow> sign_str s @ ''Infinity''
      | NaN s sig p \<Rightarrow> sign_str s @ (if sig then ''sNaN'' else ''NaN'') @ p
      | Finite s c e \<Rightarrow>
          let c' = rescale ROUND_HALF_EVEN c e (- 2) in
          sign_str s @ group3 (str_nat (c' div 100)) @ ''.'' @ pad2 (c' mod 100))"

definition fmt_money :: "decimal \<Rightarrow> string" where
  "fmt_money x = CHR ''$'' # format_2f x"

subsection \<open>Dates as text\<close>

text \<open>
  \<^verbatim>\<open>
  def parse_date(s: str) -> date:
      """Acepta YYYY-MM-DD."""
      try:
          return datetime.strptime(s.strip(), "%Y-%m-%d").date()
      except ValueError:
          raise ValueError("Fecha invalida. ...")
  \<close>
  \<open>strptime\<close> matches \<^verbatim>\<open>%Y\<close> as four digits, \<^verbatim>\<open>%m\<close> as
  \<^verbatim>\<open>1[0-2]|0[1-9]|[1-9]\<close> and \<^verbatim>\<open>%d\<close> as \<^verbatim>\<open>3[0-1]|[1-2]\d|0[1-9]|[1-9]| [1-9]\<close>, the
  first alternative that matches, refuses text left over, and then builds the date. Every
  failure is a \<open>ValueError\<close>.
\<close>

definition nonzero_digit :: "char \<Rightarrow> bool" where
  "nonzero_digit c = (is_digit c \<and> c \<noteq> CHR ''0'')"

definition match_month :: "string \<Rightarrow> (int \<times> string) option" where
  "match_month s =
     (case s of
        [] \<Rightarrow> None
      | [a] \<Rightarrow> if nonzero_digit a then Some (int (digit_val a), []) else None
      | a # b # r \<Rightarrow>
          if a = CHR ''1'' \<and> (b = CHR ''0'' \<or> b = CHR ''1'' \<or> b = CHR ''2'')
          then Some (10 + int (digit_val b), r)
          else if a = CHR ''0'' \<and> nonzero_digit b then Some (int (digit_val b), r)
          else if nonzero_digit a then Some (int (digit_val a), b # r)
          else None)"

definition match_day :: "string \<Rightarrow> (int \<times> string) option" where
  "match_day s =
     (case s of
        [] \<Rightarrow> None
      | [a] \<Rightarrow> if nonzero_digit a then Some (int (digit_val a), []) else None
      | a # b # r \<Rightarrow>
          if a = CHR ''3'' \<and> (b = CHR ''0'' \<or> b = CHR ''1'') then Some (30 + int (digit_val b), r)
          else if (a = CHR ''1'' \<or> a = CHR ''2'') \<and> is_digit b
          then Some (10 * int (digit_val a) + int (digit_val b), r)
          else if a = CHR ''0'' \<and> nonzero_digit b then Some (int (digit_val b), r)
          else if nonzero_digit a then Some (int (digit_val a), b # r)
          else if a = CHR '' '' \<and> nonzero_digit b then Some (int (digit_val b), r)
          else None)"

definition parse_date :: "string \<Rightarrow> py_error + date" where
  "parse_date s =
     (case py_strip s of
        y1 # y2 # y3 # y4 # h1 # r1 \<Rightarrow>
          if list_all is_digit [y1, y2, y3, y4] \<and> h1 = CHR ''-''
          then (case match_month r1 of
                  Some (m, h2 # r2) \<Rightarrow>
                    if h2 = CHR ''-''
                    then (case match_day r2 of
                            Some (dd, []) \<Rightarrow> make_date (int (int_of_digits [y1, y2, y3, y4])) m dd
                          | _ \<Rightarrow> Inl ValueError)
                    else Inl ValueError
                | _ \<Rightarrow> Inl ValueError)
          else Inl ValueError
      | _ \<Rightarrow> Inl ValueError)"

text \<open>
  \<^verbatim>\<open>today.strftime("%Y-%m")\<close>: the year in four digits (as every platform writes the
  years from 1000 on), a hyphen and the month in two digits.
\<close>

definition pad4 :: "nat \<Rightarrow> string" where
  "pad4 n = [digit_char (n div 1000 mod 10), digit_char (n div 100 mod 10),
             digit_char (n div 10 mod 10), digit_char (n mod 10)]"

definition month_key :: "date \<Rightarrow> string" where
  "month_key dt = pad4 (nat (year dt)) @ ''-'' @ pad2 (nat (month dt))"

text \<open>\<^verbatim>\<open>a <= b\<close> on dates compares year, month and day in this order.\<close>

definition date_le :: "date \<Rightarrow> date \<Rightarrow> bool" where
  "date_le a b =
     (year a < year b \<or> (year a = year b \<and>
       (month a < month b \<or> (month a = month b \<and> day a \<le> day b))))"

subsection \<open>The ledger\<close>

text \<open>
  The state is the dictionary of \<open>default_state\<close>; its rows are the dictionaries that
  \<open>asdict\<close> makes of \<open>Income\<close>, \<open>ExtraIncome\<close> and \<open>Expense\<close>, with the amounts and
  dates as strings. The fields carry a letter for their row type: \<open>i_amount\<close> is
  \<^verbatim>\<open>row["amount"]\<close> of a monthly income.
\<close>

record income =
  i_person :: string
  i_amount :: string
  i_month :: string

record extra_income =
  x_person :: string
  x_amount :: string
  x_dt :: string
  x_note :: string

record expense =
  e_amount :: string
  e_category :: string
  e_dt :: string
  e_note :: string

record ledger_state =
  categories :: "string list"
  people :: "string list"
  monthly_incomes :: "income list"
  extra_incomes :: "extra_income list"
  expenses :: "expense list"

text \<open>
  \<^verbatim>\<open>
  def set_monthly_income(state: Dict, person: str, amount: Decimal, month_key: str) -> None:
      # si ya existe, lo reemplaza
      incomes = state["monthly_incomes"]
      for row in incomes:
          if row["person"] == person and row["month"] == month_key:
              row["amount"] = str(amount)
              return
      incomes.append(asdict(Income(person=person, amount=str(amount), month=month_key)))
  \<close>
  \<open>replace_amount\<close> is the loop: it overwrites the amount of the first row of the person
  and month and stops, or reports that it found none.
\<close>

fun replace_amount :: "string \<Rightarrow> string \<Rightarrow> string \<Rightarrow> income list \<Rightarrow> income list option" where
  "replace_amount p mk a [] = None"
| "replace_amount p mk a (row # rows) =
     (if i_person row = p \<and> i_month row = mk then Some (row\<lparr>i_amount := a\<rparr> # rows)
      else map_option ((#) row) (replace_amount p mk a rows))"

definition set_monthly_income :: "ledger_state \<Rightarrow> string \<Rightarrow> decimal \<Rightarrow> string \<Rightarrow> ledger_state" where
  "set_monthly_income st p amt mk =
     (let incomes = monthly_incomes st in
      case replace_amount p mk (str_decimal amt) incomes of
        Some incomes' \<Rightarrow> st\<lparr>monthly_incomes := incomes'\<rparr>
      | None \<Rightarrow> st\<lparr>monthly_incomes :=
                  incomes @ [\<lparr>i_person = p, i_amount = str_decimal amt, i_month = mk\<rparr>]\<rparr>)"

subsection \<open>Totals of the month\<close>

definition py_bind :: "py_error + 'a \<Rightarrow> ('a \<Rightarrow> py_error + 'b) \<Rightarrow> py_error + 'b" where
  "py_bind m f = (case m of Inl err \<Rightarrow> Inl err | Inr v \<Rightarrow> f v)"

text \<open>
  \<^verbatim>\<open>
  def totals_for_month(state: Dict, today: date) -> Tuple[Decimal, Decimal, Decimal]:
      month_key = today.strftime("%Y-%m")
      start = month_start(today)
      end = month_end(today)

      base_income = Decimal("0")
      for row in state["monthly_incomes"]:
          if row["month"] == month_key:
              base_income += d(row["amount"])

      extra_income = Decimal("0")
      for row in state["extra_incomes"]:
          dt = parse_date(row["dt"])
          if start <= dt <= end:
              extra_income += d(row["amount"])

      expenses = Decimal("0")
      for row in state["expenses"]:
          dt = parse_date(row["dt"])
          if start <= dt <= end:
              expenses += d(row["amount"])

      return (
          base_income.quantize(Decimal("0.01")),
          extra_income.quantize(Decimal("0.01")),
          expenses.quantize(Decimal("0.01")),
      )
  \<close>
  \<open>sum_month\<close> is the first loop and \<open>sum_window\<close> the second and the third, over the
  date and amount of each row; an exception of \<open>d\<close>, \<open>parse_date\<close> or the addition ends
  the loop. \<open>quantize\<close> without a rounding uses the context's, \<open>ROUND_HALF_EVEN\<close>.
\<close>

fun sum_month :: "string \<Rightarrow> decimal \<Rightarrow> income list \<Rightarrow> py_error + decimal" where
  "sum_month mk acc [] = Inr acc"
| "sum_month mk acc (row # rows) =
     (if i_month row = mk
      then py_bind (d (i_amount row)) (\<lambda>a. py_bind (dec_add acc a) (\<lambda>acc'. sum_month mk acc' rows))
      else sum_month mk acc rows)"

fun sum_window :: "date \<Rightarrow> date \<Rightarrow> decimal \<Rightarrow> (string \<times> string) list \<Rightarrow> py_error + decimal" where
  "sum_window start end_d acc [] = Inr acc"
| "sum_window start end_d acc ((dt_s, amount_s) # rows) =
     py_bind (parse_date dt_s) (\<lambda>dt.
       if date_le start dt \<and> date_le dt end_d
       then py_bind (d amount_s) (\<lambda>a. py_bind (dec_add acc a) (\<lambda>acc'. sum_window start end_d acc' rows))
       else sum_window start end_d acc rows)"

definition totals_for_month :: "ledger_state \<Rightarrow> date \<Rightarrow> py_error + decimal \<times> decimal \<times> decimal" where
  "totals_for_month st today =
     py_bind (month_start today) (\<lambda>start.
     py_bind (month_end today) (\<lambda>end_d.
     py_bind (sum_month (month_key today) (Finite False 0 0) (monthly_incomes st)) (\<lambda>base_income.
     py_bind (sum_window start end_d (Finite False 0 0)
                (map (\<lambda>row. (x_dt row, x_amount row)) (extra_incomes st))) (\<lambda>extra_income.
     py_bind (sum_window start end_d (Finite False 0 0)
                (map (\<lambda>row. (e_dt row, e_amount row)) (expenses st))) (\<lambda>expenses_sum.
     py_bind (quantize ROUND_HALF_EVEN base_income) (\<lambda>b.
     py_bind (quantize ROUND_HALF_EVEN extra_income) (\<lambda>x.
     py_bind (quantize ROUND_HALF_EVEN expenses_sum) (\<lambda>e.
     Inr (b, x, e)))))))))"

text \<open>
  \<^verbatim>\<open>
  def remaining_and_per_day(state: Dict, today: date) -> Tuple[Decimal, Decimal, int]:
      base_income, extra_income, expenses = totals_for_month(state, today)
      total_income = base_income + extra_income
      remaining = (total_income - expenses).quantize(Decimal("0.01"))
      days_left = days_remaining_in_month(today)
      per_day = (remaining / Decimal(days_left)).quantize(Decimal("0.01")) if days_left > 0 else Decimal("0.00")
      return remaining, per_day, days_left
  \<close>
  \<open>per_day_of\<close> is the expression of \<open>per_day\<close>, as a function of \<open>remaining\<close> and
  \<open>days_left\<close>; the form computes the same expression in \<open>refresh_summary\<close>.
\<close>

definition per_day_of :: "decimal \<Rightarrow> int \<Rightarrow> py_error + decimal" where
  "per_day_of remaining days_left =
     (if days_left > 0
      then py_bind (dec_truediv remaining (dec_of_int days_left)) (quantize ROUND_HALF_EVEN)
      else Inr (Finite False 0 (- 2)))"

definition remaining_and_per_day :: "ledger_state \<Rightarrow> date \<Rightarrow> py_error + decimal \<times> decimal \<times> int" where
  "remaining_and_per_day st today =
     py_bind (totals_for_month st today) (\<lambda>(base_income, extra_income, expenses_sum).
     py_bind (dec_add base_income extra_income) (\<lambda>total_income.
     py_bind (dec_sub total_income expenses_sum) (\<lambda>diff.
     py_bind (quantize ROUND_HALF_EVEN diff) (\<lambda>remaining.
     py_bind (days_remaining_in_month today) (\<lambda>days_left.
     py_bind (per_day_of remaining days_left) (\<lambda>per_day.
     Inr (remaining, per_day, days_left)))))))"

text \<open>
  The form's \<open>totals_for_month\<close> returns the three sums as they are,
  \<^verbatim>\<open>return base, extra, exp\<close>, and \<open>refresh_summary\<close> computes from them
  \<^verbatim>\<open>
      total_inc = base + extra
      remaining = (total_inc - exp).quantize(Decimal("0.01"))
      days_left = days_remaining_in_month(self.today)
      per_day = (remaining / Decimal(days_left)).quantize(Decimal("0.01")) if days_left > 0 else Decimal("0.00")
  \<close>
\<close>

definition totals_for_month_app :: "ledger_state \<Rightarrow> date \<Rightarrow> py_error + decimal \<times> decimal \<times> decimal" where
  "totals_for_month_app st today =
     py_bind (month_start today) (\<lambda>start.
     py_bind (month_end today) (\<lambda>end_d.
     py_bind (sum_month (month_key today) (Finite False 0 0) (monthly_incomes st)) (\<lambda>base.
     py_bind (sum_window start end_d (Finite False 0 0)
                (map (\<lambda>row. (x_dt row, x_amount row)) (extra_incomes st))) (\<lambda>extra.
     py_bind (sum_window start end_d (Finite False 0 0)
                (map (\<lambda>row. (e_dt row, e_amount row)) (expenses st))) (\<lambda>exp_sum.
     Inr (base, extra, exp_sum))))))"

definition refresh_summary :: "ledger_state \<Rightarrow> date \<Rightarrow> py_error + decimal \<times> decimal \<times> int" where
  "refresh_summary st today =
     py_bind (totals_for_month_app st today) (\<lambda>(base, extra, exp_sum).
     py_bind (dec_add base extra) (\<lambda>total_inc.
     py_bind (dec_sub total_inc exp_sum) (\<lambda>diff.
     py_bind (quantize ROUND_HALF_EVEN diff) (\<lambda>remaining.
     py_bind (days_remaining_in_month today) (\<lambda>days_left.
     py_bind (per_day_of remaining days_left) (\<lambda>per_day.
     Inr (remaining, per_day, days_left)))))))"

subsection \<open>A ledger for the worked example\<close>

text \<open>
  Ana's base income of 50000.00 for January 2026, an extra income of 2000.00 on the 10th,
  an expense of 15000.00 on January 5th and one of 5000.00 on December 20th, 2025.
\<close>

definition example_state :: ledger_state where
  "example_state =
     \<lparr>categories = [], people = [],
      monthly_incomes =
        [\<lparr>i_person = ''Ana'', i_amount = ''50000.00'', i_month = ''2026-01''\<rparr>],
      extra_incomes =
        [\<lparr>x_person = ''Ana'', x_amount = ''2000.00'', x_dt = ''2026-01-10'', x_note = []\<rparr>],
      expenses =
        [\<lparr>e_amount = ''15000.00'', e_category = ''Comida'', e_dt = ''2026-01-05'', e_note = []\<rparr>,
         \<lparr>e_amount = ''5000.00'', e_category = ''Comida'', e_dt = ''2025-12-20'', e_note = []\<rparr>]\<rparr>"


section \<open>Properties\<close>

subsection \<open>Categories and people\<close>

lemma ensure_unique_add_app_eq: "ensure_unique_add_app lst item = ensure_unique_add lst item"
  by (simp add: ensure_unique_add_app_def ensure_unique_add_def Let_def)

lemma py_strip_no_edge_space:
  "py_strip s = [] \<or> (\<not> is_space (hd (py_strip s)) \<and> \<not> is_space (last (py_strip s)))"
proof -
  let ?a = "dropWhile is_space s"
  let ?b = "dropWhile is_space (rev ?a)"
  show ?thesis
  proof (cases "?b = []")
    case True
    then show ?thesis by (simp add: py_strip_def)
  next
    case False
    have lastb: "\<not> is_space (hd ?b)"
      using False hd_dropWhile by blast
    have "?a \<noteq> []" using False by fastforce
    then have hda: "\<not> is_space (hd ?a)"
      using hd_dropWhile by blast
    have "rev ?a = takeWhile is_space (rev ?a) @ ?b"
      by simp
    then have "?a = rev ?b @ rev (takeWhile is_space (rev ?a))"
      by (metis rev_append rev_rev_ident)
    then have "hd ?a = hd (rev ?b)"
      using False by (metis hd_append2 rev_is_Nil_conv)
    with hda lastb False show ?thesis
      by (simp add: py_strip_def last_rev)
  qed
qed

text \<open>
  C10: whenever \<open>ensure_unique_add\<close> returns \<open>False\<close> (the trimmed item is empty or is
  already in the list), the list it was given is left as it was: nothing is added, removed,
  reordered or modified. The same holds for the form's version.
\<close>

theorem ensure_unique_add_rejected_unchanged:
  "(\<not> fst (ensure_unique_add lst item) \<longrightarrow> snd (ensure_unique_add lst item) = lst) \<and>
   (\<not> fst (ensure_unique_add_app lst item) \<longrightarrow> snd (ensure_unique_add_app lst item) = lst) \<and>
   (\<not> fst (ensure_unique_add lst item) \<longleftrightarrow> py_strip item = [] \<or> py_strip item \<in> set lst)"
  by (simp add: ensure_unique_add_app_eq) (simp add: ensure_unique_add_def Let_def)

theorem ensure_unique_add_rejected_unchanged_witness:
  "ensure_unique_add [''Comida''] '' Comida '' = (False, [''Comida'']) \<and>
   ensure_unique_add_app [''Comida''] ''   '' = (False, [''Comida''])"
proof -
  have a: "\<not> fst (ensure_unique_add [''Comida''] '' Comida '')"
    by code_simp
  have b: "\<not> fst (ensure_unique_add_app [''Comida''] ''   '')"
    by code_simp
  have c: "snd (ensure_unique_add [''Comida''] '' Comida '') = [''Comida'']"
    using a ensure_unique_add_rejected_unchanged [of "[''Comida'']" "'' Comida ''"] by simp
  have e: "snd (ensure_unique_add_app [''Comida''] ''   '') = [''Comida'']"
    using b ensure_unique_add_rejected_unchanged [of "[''Comida'']" "''   ''"] by simp
  show ?thesis
    using a b c e by (simp add: prod_eq_iff)
qed

text \<open>
  C3 (amended): \<open>ensure_unique_add\<close> trims its argument, rejects an empty result, rejects
  an item that is already in the list, compared exactly (case matters), and otherwise adds
  the trimmed item and sorts the list by the lower-cased entries, keeping the order of
  entries that differ only in case; it returns whether it added the item. Called with
  "Comida" and then with " comida " it returns true twice and the list has two entries;
  called with "Comida" and then " Comida " it returns true then false and the list has one.
\<close>

theorem ensure_unique_add_contract:
  "fst (ensure_unique_add lst item) = (py_strip item \<noteq> [] \<and> py_strip item \<notin> set lst) \<and>
   (fst (ensure_unique_add lst item) \<longrightarrow>
      set (snd (ensure_unique_add lst item)) = insert (py_strip item) (set lst) \<and>
      length (snd (ensure_unique_add lst item)) = Suc (length lst) \<and>
      sorted (map py_lower (snd (ensure_unique_add lst item))) \<and>
      (\<forall>k. filter (\<lambda>x. py_lower x = k) (snd (ensure_unique_add lst item)) =
           filter (\<lambda>x. py_lower x = k) (lst @ [py_strip item]))) \<and>
   (\<not> fst (ensure_unique_add lst item) \<longrightarrow> snd (ensure_unique_add lst item) = lst) \<and>
   (py_strip item = [] \<or>
      \<not> is_space (hd (py_strip item)) \<and> \<not> is_space (last (py_strip item))) \<and>
   ensure_unique_add_app lst item = ensure_unique_add lst item"
proof -
  have 1: "fst (ensure_unique_add lst item) = (py_strip item \<noteq> [] \<and> py_strip item \<notin> set lst)"
    by (simp add: ensure_unique_add_def Let_def)
  have 2: "snd (ensure_unique_add lst item) = sort_key py_lower (lst @ [py_strip item])"
    if "fst (ensure_unique_add lst item)"
    using that by (simp add: ensure_unique_add_def Let_def split: if_splits)
  have 3: "snd (ensure_unique_add lst item) = lst" if "\<not> fst (ensure_unique_add lst item)"
    using that by (simp add: ensure_unique_add_def Let_def split: if_splits)
  have 4: "set (sort_key py_lower (lst @ [py_strip item])) = insert (py_strip item) (set lst)"
    by simp
  have 5: "length (sort_key py_lower (lst @ [py_strip item])) = Suc (length lst)"
    by simp
  have 6: "sorted (map py_lower (sort_key py_lower (lst @ [py_strip item])))"
    by (rule sorted_sort_key)
  have 7: "\<forall>k. filter (\<lambda>x. py_lower x = k) (sort_key py_lower (lst @ [py_strip item])) =
               filter (\<lambda>x. py_lower x = k) (lst @ [py_strip item])"
    by (simp only: sort_key_stable) simp
  show ?thesis
    using 1 2 3 4 5 6 7 py_strip_no_edge_space [of item] ensure_unique_add_app_eq [of lst item]
    by presburger
qed

theorem ensure_unique_add_contract_witness:
  "ensure_unique_add [''Comida''] '' Comida '' = (False, [''Comida'']) \<and>
   set (snd (ensure_unique_add [''Comida''] '' comida '')) = {''comida'', ''Comida''} \<and>
   length (snd (ensure_unique_add [''Comida''] '' comida '')) = 2"
proof -
  have s: "py_strip '' comida '' = ''comida''" "py_strip '' Comida '' = ''Comida''"
    by code_simp+
  have a: "fst (ensure_unique_add [''Comida''] '' comida '')"
    using ensure_unique_add_contract [of "[''Comida'']" "'' comida ''"] by (simp add: s)
  have b: "\<not> fst (ensure_unique_add [''Comida''] '' Comida '')"
    using ensure_unique_add_contract [of "[''Comida'']" "'' Comida ''"] by (simp add: s)
  have c: "snd (ensure_unique_add [''Comida''] '' Comida '') = [''Comida'']"
    using b ensure_unique_add_contract [of "[''Comida'']" "'' Comida ''"] by blast
  have d: "set (snd (ensure_unique_add [''Comida''] '' comida '')) = insert ''comida'' (set [''Comida''])"
    "length (snd (ensure_unique_add [''Comida''] '' comida '')) = Suc (length [''Comida''])"
    using a ensure_unique_add_contract [of "[''Comida'']" "'' comida ''"] by (simp_all add: s)
  show ?thesis
    using b c d by (simp add: prod_eq_iff)
qed

text \<open>
  The duplicate test is exact: after "Comida", the item " comida " is added as a second
  entry.
\<close>

theorem ensure_unique_add_case_counterexample:
  "ensure_unique_add [] ''Comida'' = (True, [''Comida'']) \<and>
   ensure_unique_add [''Comida''] '' comida '' = (True, [''Comida'', ''comida'']) \<and>
   ensure_unique_add_app [''Comida''] '' comida '' = (True, [''Comida'', ''comida''])"
  by code_simp

subsection \<open>Calendar\<close>

lemma divmod_step:
  fixes q r dd :: int
  assumes "0 \<le> r" "r < dd"
  shows "(q * dd + r) div dd = q" "(q * dd + r) mod dd = r"
  using assms by (simp_all add: div_pos_pos_trivial)

lemma year_split:
  fixes Y :: int
  assumes "0 \<le> Y"
  obtains a b c e where "Y = 400 * a + 100 * b + 4 * c + e"
    "0 \<le> a" "0 \<le> b" "b < 4" "0 \<le> c" "c < 25" "0 \<le> e" "e < 4"
proof -
  define a where "a = Y div 400"
  define s where "s = Y mod 400"
  define b where "b = s div 100"
  define t where "t = s mod 100"
  define c where "c = t div 4"
  define e where "e = t mod 4"
  have 1: "Y = 400 * a + s" "0 \<le> s" "s < 400" by (simp_all add: a_def s_def)
  have 2: "s = 100 * b + t" "0 \<le> t" "t < 100" by (simp_all add: b_def t_def)
  have 3: "t = 4 * c + e" "0 \<le> e" "e < 4" by (simp_all add: c_def e_def)
  have a0: "0 \<le> a" using assms by (simp add: a_def)
  have b0: "0 \<le> b" "b < 4" using 1 by (simp_all add: b_def)
  have c0: "0 \<le> c" "c < 25" using 2 by (simp_all add: c_def)
  have Y: "Y = 400 * a + 100 * b + 4 * c + e" using 1 2 3 by simp
  show thesis
    by (rule that [OF Y a0 b0 c0 3(2) 3(3)])
qed

lemma dby_split:
  fixes a b c e :: int
  assumes "0 \<le> b" "b < 4" "0 \<le> c" "c < 25" "0 \<le> e" "e < 4"
  shows "days_before_year (400 * a + 100 * b + 4 * c + e + 1) =
         146097 * a + 36524 * b + 1461 * c + 365 * e"
proof -
  let ?Y = "400 * a + 100 * b + 4 * c + e"
  have "?Y = (100 * a + 25 * b + c) * 4 + e" by simp
  then have d4: "?Y div 4 = 100 * a + 25 * b + c"
    using divmod_step(1) [of e 4 "100 * a + 25 * b + c"] assms by simp
  have "?Y = (4 * a + b) * 100 + (4 * c + e)" by simp
  then have d100: "?Y div 100 = 4 * a + b"
    using divmod_step(1) [of "4 * c + e" 100 "4 * a + b"] assms by simp
  have "?Y = a * 400 + (100 * b + 4 * c + e)" by simp
  then have d400: "?Y div 400 = a"
    using divmod_step(1) [of "100 * b + 4 * c + e" 400 a] assms by simp
  show ?thesis
    unfolding days_before_year_def using d4 d100 d400 by simp
qed

lemma leap_split:
  fixes a b c e :: int
  assumes "0 \<le> b" "b < 4" "0 \<le> c" "c < 25" "0 \<le> e" "e < 4"
  shows "is_leap (400 * a + 100 * b + 4 * c + e + 1) \<longleftrightarrow> e = 3 \<and> (c \<noteq> 24 \<or> b = 3)"
proof -
  let ?y = "400 * a + 100 * b + 4 * c + e + 1"
  have "?y = (100 * a + 25 * b + c) * 4 + (e + 1)" by simp
  then have m4: "?y mod 4 = (e + 1) mod 4"
    by (metis mod_mult_self3)
  have "?y = (4 * a + b) * 100 + (4 * c + e + 1)" by simp
  then have m100: "?y mod 100 = (4 * c + e + 1) mod 100"
    by (metis mod_mult_self3)
  have "?y = a * 400 + (100 * b + 4 * c + e + 1)" by simp
  then have m400: "?y mod 400 = (100 * b + 4 * c + e + 1) mod 400"
    by (metis mod_mult_self3)
  have a4: "(e + 1) mod 4 = 0 \<longleftrightarrow> e = 3" using assms by arith
  have a100: "(4 * c + 3 + 1) mod 100 = 0 \<longleftrightarrow> c = 24"
  proof (cases "c = 24")
    case True
    then show ?thesis by simp
  next
    case False
    then have "0 < 4 * c + 3 + 1" "4 * c + 3 + 1 < 100" using assms by simp_all
    then show ?thesis using False by (simp add: mod_pos_pos_trivial)
  qed
  have a400: "(100 * b + 4 * 24 + 3 + 1) mod 400 = 0 \<longleftrightarrow> b = 3"
  proof (cases "b = 3")
    case True
    then show ?thesis by simp
  next
    case False
    then have "0 < 100 * b + 4 * 24 + 3 + 1" "100 * b + 4 * 24 + 3 + 1 < 400" using assms by simp_all
    then show ?thesis using False by (simp add: mod_pos_pos_trivial)
  qed
  show ?thesis
    unfolding is_leap_def m4 m100 m400 using a4 a100 a400 by auto
qed

text \<open>The year part of ord2ymd, on the day r3 (from 0) of a four-year cycle.\<close>

lemma cycle_decode:
  fixes a b c r3 :: int
  assumes "0 \<le> b" "b < 4" "0 \<le> c" "c < 25" "0 \<le> r3" "r3 < 1461"
    "c < 24 \<or> r3 < 1460"
  defines "n \<equiv> 146097 * a + 36524 * b + 1461 * c + r3"
  shows "n div 146097 = a" "n mod 146097 div 36524 = b"
        "n mod 146097 mod 36524 div 1461 = c" "n mod 146097 mod 36524 mod 1461 = r3"
proof -
  let ?r1 = "36524 * b + 1461 * c + r3"
  let ?r2 = "1461 * c + r3"
  have n1: "n = a * 146097 + ?r1" by (simp add: n_def)
  have b1: "0 \<le> ?r1" "?r1 < 146097" using assms by simp_all
  show A: "n div 146097 = a" unfolding n1 using b1 by (rule divmod_step(1))
  have M1: "n mod 146097 = ?r1" unfolding n1 using b1 by (rule divmod_step(2))
  have n2: "?r1 = b * 36524 + ?r2" by simp
  have b2: "0 \<le> ?r2" "?r2 < 36524" using assms by auto
  show "n mod 146097 div 36524 = b" unfolding M1 n2 using b2 by (rule divmod_step(1))
  have M2: "n mod 146097 mod 36524 = ?r2" unfolding M1 n2 using b2 by (rule divmod_step(2))
  have n3: "?r2 = c * 1461 + r3" by simp
  show "n mod 146097 mod 36524 div 1461 = c" unfolding M2 n3 using assms(5,6) by (rule divmod_step(1))
  show "n mod 146097 mod 36524 mod 1461 = r3" unfolding M2 n3 using assms(5,6) by (rule divmod_step(2))
qed

lemma ord2ymd_parts:
  assumes "N div 146097 = a" "N mod 146097 div 36524 = b"
    "N mod 146097 mod 36524 div 1461 = c" "N mod 146097 mod 36524 mod 1461 = r3"
  shows "ord2ymd (N + 1) =
     (if r3 div 365 = 4 \<or> b = 4 then Date (a * 400 + 1 + b * 100 + c * 4 + r3 div 365 - 1) 12 31
      else case month_day_of (r3 div 365 = 3 \<and> (c \<noteq> 24 \<or> b = 3)) (r3 mod 365) of
             (m, dd) \<Rightarrow> Date (a * 400 + 1 + b * 100 + c * 4 + r3 div 365) m dd)"
  unfolding ord2ymd_def Let_def add_diff_cancel_right' assms by (rule refl)

lemma month_cases:
  fixes m :: int
  assumes "1 \<le> m" "m \<le> 12"
  shows "m = 1 \<or> m = 2 \<or> m = 3 \<or> m = 4 \<or> m = 5 \<or> m = 6 \<or> m = 7 \<or> m = 8 \<or> m = 9 \<or>
         m = 10 \<or> m = 11 \<or> m = 12"
  using assms by arith

lemma pre_m_lower:
  assumes "1 \<le> m" "m \<le> 12"
  shows "32 * m \<le> pre_m L m + 50"
  using month_cases [OF assms] by (elim disjE; simp add: pre_m_def)

lemma pre_m_upper:
  assumes "1 \<le> m" "m \<le> 12"
  shows "pre_m L m + dim_m L m + 49 < (if m = 12 then 32 * (m + 1) else 32 * (m + 2))"
  using month_cases [OF assms] by (elim disjE; simp add: pre_m_def dim_m_def)

lemma pre_m_next:
  assumes "1 \<le> m" "m < 12"
  shows "pre_m L (m + 1) = pre_m L m + dim_m L m"
proof -
  have "m \<le> 12" using assms by simp
  from month_cases [OF assms(1) this] assms(2) show ?thesis
    by (elim disjE; simp add: pre_m_def dim_m_def)
qed

lemma pre_m_nonneg:
  assumes "1 \<le> m" "m \<le> 12"
  shows "0 \<le> pre_m L m"
  using month_cases [OF assms] by (elim disjE; simp add: pre_m_def)

lemma pre_m_year_length:
  assumes "1 \<le> m" "m \<le> 12"
  shows "pre_m L m + dim_m L m \<le> (if L then 366 else 365)"
  using month_cases [OF assms] by (elim disjE; simp add: pre_m_def dim_m_def)

lemma pre_m_december: "pre_m L 12 + dim_m L 12 = (if L then 366 else 365)"
  by (simp add: pre_m_def dim_m_def)

lemma pre_m_before_december:
  assumes "1 \<le> m" "m < 12"
  shows "pre_m L m + dim_m L m < 365"
proof -
  have "m \<le> 12" using assms by simp
  from month_cases [OF assms(1) this] assms(2) show ?thesis
    by (elim disjE; simp add: pre_m_def dim_m_def)
qed

lemma dim_m_range:
  assumes "1 \<le> m" "m \<le> 12"
  shows "dim_m L m \<in> {28, 29, 30, 31}"
  using month_cases [OF assms] by (elim disjE; simp add: dim_m_def)

lemma div32_unique:
  fixes x k :: int
  assumes "32 * k \<le> x" "x < 32 * (k + 1)"
  shows "x div 32 = k"
proof -
  have "x = k * 32 + (x - 32 * k)" by simp
  moreover have "0 \<le> x - 32 * k" "x - 32 * k < 32" using assms by simp_all
  ultimately show ?thesis
    using divmod_step(1) [of "x - 32 * k" 32 k] by simp
qed

lemma month_decode:
  assumes m: "1 \<le> m" "m \<le> 12" and n: "pre_m L m \<le> n" "n < pre_m L m + dim_m L m"
  shows "month_day_of L n = (m, n - pre_m L m + 1)"
proof -
  have lo: "32 * m \<le> n + 50"
    using pre_m_lower [OF m, of L] n by simp
  have hi: "n + 50 < (if m = 12 then 32 * (m + 1) else 32 * (m + 2))"
    using pre_m_upper [OF m, of L] n by (simp split: if_splits)
  show ?thesis
  proof (cases "n + 50 < 32 * (m + 1)")
    case True
    then have "(n + 50) div 32 = m"
      using lo by (intro div32_unique) simp_all
    then show ?thesis
      using n by (simp add: month_day_of_def)
  next
    case False
    then have m12: "m < 12" using hi m by (simp split: if_splits)
    have "(n + 50) div 32 = m + 1"
      using False hi m12 by (intro div32_unique) simp_all
    then show ?thesis
      using n pre_m_next [OF m(1) m12, of L] by (simp add: month_day_of_def)
  qed
qed

lemma ord2ymd_cycle_end: "ord2ymd (146097 * a + 146096 + 1) = Date (400 * a + 400) 12 31"
proof -
  let ?N = "146097 * a + 146096"
  have "?N = a * 146097 + 146096" by simp
  then have 1: "?N div 146097 = a" "?N mod 146097 = 146096"
    using divmod_step [of 146096 146097 a] by simp_all
  show ?thesis
    unfolding ord2ymd_def Let_def add_diff_cancel_right' 1 by simp
qed

lemma ord2ymd_toordinal:
  assumes "valid_date dt"
  shows "ord2ymd (toordinal dt) = dt"
proof -
  obtain y m dd where dt: "dt = Date y m dd" by (cases dt)
  define L where "L = is_leap y"
  from assms have y: "1 \<le> y" and m: "1 \<le> m" "m \<le> 12" and dd: "1 \<le> dd" "dd \<le> dim_m L m"
    by (simp_all add: valid_date_def dt days_in_month_def L_def)
  from y have "0 \<le> y - 1" by simp
  then obtain a b c e where Y: "y - 1 = 400 * a + 100 * b + 4 * c + e"
    and r: "0 \<le> a" "0 \<le> b" "b < 4" "0 \<le> c" "c < 25" "0 \<le> e" "e < 4"
    by (rule year_split)
  have yy: "y = 400 * a + 100 * b + 4 * c + e + 1" using Y by simp
  have Leq: "L \<longleftrightarrow> e = 3 \<and> (c \<noteq> 24 \<or> b = 3)"
    unfolding L_def yy using r(2-7) by (rule leap_split)
  have dby: "days_before_year y = 146097 * a + 36524 * b + 1461 * c + 365 * e"
    unfolding yy using r(2-7) by (rule dby_split)
  define k where "k = pre_m L m + dd - 1"
  have k0: "pre_m L m \<le> k" "k < pre_m L m + dim_m L m" using dd by (simp_all add: k_def)
  have k1: "0 \<le> k" using pre_m_nonneg [OF m, of L] k0 by simp
  have k2: "k < (if L then 366 else 365)" using pre_m_year_length [OF m, of L] k0 by simp
  have ord: "toordinal dt = (146097 * a + 36524 * b + 1461 * c + (365 * e + k)) + 1"
    by (simp add: toordinal_def dt dby days_before_month_def k_def L_def)
  have r3: "0 \<le> 365 * e + k" "365 * e + k < 1461"
    using r k1 k2 Leq by (auto split: if_splits)
  show ?thesis
  proof (cases "k < 365")
    case True
    have "c < 24 \<or> 365 * e + k < 1460" using True r by auto
    note parts = cycle_decode [OF r(2-5) r3 this, of a]
    have "365 * e + k = e * 365 + k" by simp
    then have e1: "(365 * e + k) div 365 = e" and e2: "(365 * e + k) mod 365 = k"
      using divmod_step [OF k1 True, of e] by simp_all
    have md: "month_day_of L k = (m, dd)"
      using month_decode [OF m k0] by (simp add: k_def)
    show ?thesis
      unfolding ord ord2ymd_parts [OF parts] e1 e2 using r md Leq yy by (simp add: dt)
  next
    case False
    then have kk: "k = 365" and LL: "L" using k2 by (simp_all split: if_splits)
    have m12: "m = 12"
    proof (rule ccontr)
      assume "m \<noteq> 12"
      then have "m < 12" using m by simp
      from pre_m_before_december [OF m(1) this, of L] k0 kk show False by simp
    qed
    have d31: "dd = 31" using kk m12 LL by (simp add: k_def pre_m_def)
    have e3: "e = 3" using LL Leq by simp
    show ?thesis
    proof (cases "c = 24")
      case True
      then have b3: "b = 3" using LL Leq by simp
      have "toordinal dt = 146097 * a + 146096 + 1"
        by (simp add: ord b3 True e3 kk)
      then show ?thesis
        using ord2ymd_cycle_end [of a] by (simp add: dt m12 d31 yy b3 True e3)
    next
      case False
      then have "c < 24 \<or> 365 * e + k < 1460" using r by simp
      note parts = cycle_decode [OF r(2-5) r3 this, of a]
      have e1: "(365 * e + k) div 365 = 4" by (simp add: e3 kk)
      show ?thesis
        unfolding ord ord2ymd_parts [OF parts] e1 using yy e3 by (simp add: dt m12 d31)
    qed
  qed
qed


lemma toordinal_range:
  assumes "valid_date dt"
  shows "0 < toordinal dt" "toordinal dt \<le> 3652059"
proof -
  obtain y m dd where dt: "dt = Date y m dd" by (cases dt)
  define L where "L = is_leap y"
  from assms have y: "1 \<le> y" "y \<le> 9999" and m: "1 \<le> m" "m \<le> 12"
    and dd: "1 \<le> dd" "dd \<le> dim_m L m"
    by (simp_all add: valid_date_def dt days_in_month_def L_def)
  from y have "0 \<le> y - 1" by simp
  then obtain a b c e where Y: "y - 1 = 400 * a + 100 * b + 4 * c + e"
    and r: "0 \<le> a" "0 \<le> b" "b < 4" "0 \<le> c" "c < 25" "0 \<le> e" "e < 4"
    by (rule year_split)
  have yy: "y = 400 * a + 100 * b + 4 * c + e + 1" using Y by simp
  have Leq: "L \<longleftrightarrow> e = 3 \<and> (c \<noteq> 24 \<or> b = 3)"
    unfolding L_def yy using r(2-7) by (rule leap_split)
  have dby: "days_before_year y = 146097 * a + 36524 * b + 1461 * c + 365 * e"
    unfolding yy using r(2-7) by (rule dby_split)
  have ord: "toordinal dt = 146097 * a + 36524 * b + 1461 * c + 365 * e + pre_m L m + dd"
    by (simp add: toordinal_def dt dby days_before_month_def L_def)
  have p0: "0 \<le> pre_m L m" by (rule pre_m_nonneg [OF m])
  show "0 < toordinal dt"
    unfolding ord using r p0 dd by simp
  have k: "pre_m L m + dd \<le> (if L then 366 else 365)"
    using pre_m_year_length [OF m, of L] dd by simp
  have a24: "a \<le> 24" using yy y r by simp
  show "toordinal dt \<le> 3652059"
  proof (cases "a \<le> 23")
    case True
    then show ?thesis unfolding ord using r k by (simp split: if_splits)
  next
    case False
    then have a: "a = 24" using a24 by simp
    show ?thesis
    proof (cases "b \<le> 2")
      case True
      then show ?thesis unfolding ord a using r k by (simp split: if_splits)
    next
      case False
      then have b: "b = 3" using r by simp
      show ?thesis
      proof (cases "c \<le> 23")
        case True
        then show ?thesis unfolding ord a b using r k by (simp split: if_splits)
      next
        case False
        then have c: "c = 24" using r by simp
        have e: "e \<le> 2" using yy y a b c by simp
        then have "\<not> L" using Leq by simp
        then show ?thesis unfolding ord a b c using e k by simp
      qed
    qed
  qed
qed

lemma div_succ:
  fixes y k :: int
  assumes "0 < k"
  shows "y div k = (y - 1) div k + (if y mod k = 0 then 1 else 0)"
proof -
  define q where "q = (y - 1) div k"
  define r where "r = (y - 1) mod k"
  have y: "y = q * k + r + 1" by (simp add: q_def r_def)
  have rr: "0 \<le> r" "r < k" using assms by (simp_all add: r_def)
  show ?thesis
  proof (cases "r + 1 < k")
    case True
    have "y = q * k + (r + 1)" using y by simp
    moreover have "0 \<le> r + 1" using rr by simp
    ultimately have "y div k = q" "y mod k = r + 1"
      using divmod_step [of "r + 1" k q] True by simp_all
    then show ?thesis using rr by (simp add: q_def)
  next
    case False
    then have "r + 1 = k" using rr by simp
    then have "y = (q + 1) * k + 0" using y by (simp add: algebra_simps)
    then have "y div k = q + 1" "y mod k = 0"
      using divmod_step [of 0 k "q + 1"] assms by simp_all
    then show ?thesis by (simp add: q_def)
  qed
qed

lemma leap_indicator:
  fixes p4 p100 p400 :: bool
  assumes "p400 \<Longrightarrow> p100" "p100 \<Longrightarrow> p4"
  shows "(if p4 then 1 else 0) - (if p100 then 1 else 0) + (if p400 then 1 else 0) =
         (if p4 \<and> (\<not> p100 \<or> p400) then 1 else (0::int))"
  using assms by (cases p4; cases p100; cases p400) simp_all

lemma days_before_year_Suc:
  "days_before_year (y + 1) = days_before_year y + (if is_leap y then 366 else 365)"
proof -
  have 100: "y mod 100 = 0" if "y mod 400 = 0"
  proof -
    have "y mod 400 mod 100 = y mod 100" by (rule mod_mod_cancel) simp
    then show ?thesis using that by simp
  qed
  have 4: "y mod 4 = 0" if "y mod 100 = 0"
  proof -
    have "y mod 100 mod 4 = y mod 4" by (rule mod_mod_cancel) simp
    then show ?thesis using that by simp
  qed
  define i4 :: int where "i4 = (if y mod 4 = 0 then 1 else 0)"
  define i100 :: int where "i100 = (if y mod 100 = 0 then 1 else 0)"
  define i400 :: int where "i400 = (if y mod 400 = 0 then 1 else 0)"
  have ind: "i4 - i100 + i400 = (if is_leap y then 1 else 0)"
    unfolding i4_def i100_def i400_def is_leap_def by (rule leap_indicator [OF 100 4])
  have d4: "y div 4 = (y - 1) div 4 + i4"
    unfolding i4_def by (rule div_succ) simp
  have d100: "y div 100 = (y - 1) div 100 + i100"
    unfolding i100_def by (rule div_succ) simp
  have d400: "y div 400 = (y - 1) div 400 + i400"
    unfolding i400_def by (rule div_succ) simp
  have "days_before_year (y + 1) = y * 365 + y div 4 - y div 100 + y div 400"
    by (simp add: days_before_year_def)
  also have "\<dots> = days_before_year y + 365 + (i4 - i100 + i400)"
    unfolding d4 d100 d400 days_before_year_def by (simp add: algebra_simps)
  finally show ?thesis
    unfolding ind by simp
qed

lemma valid_date_last:
  assumes "valid_date dt"
  shows "valid_date (Date (year dt) (month dt) (days_in_month (year dt) (month dt)))"
  using assms dim_m_range [of "month dt" "is_leap (year dt)"]
  by (auto simp add: valid_date_def days_in_month_def)

lemma month_end_value:
  assumes v: "valid_date dt" and ny: "\<not> (year dt = 9999 \<and> month dt = 12)"
  shows "month_end dt = Inr (Date (year dt) (month dt) (days_in_month (year dt) (month dt)))"
proof -
  let ?y = "year dt" and ?m = "month dt"
  let ?last = "Date ?y ?m (days_in_month ?y ?m)"
  from v have y: "1 \<le> ?y" "?y \<le> 9999" and m: "1 \<le> ?m" "?m \<le> 12"
    by (simp_all add: valid_date_def)
  have vl: "valid_date ?last" by (rule valid_date_last [OF v])
  have rng: "0 < toordinal ?last" "toordinal ?last \<le> 3652059"
    by (rule toordinal_range [OF vl])+
  have rt: "ord2ymd (toordinal ?last) = ?last" by (rule ord2ymd_toordinal [OF vl])
  show ?thesis
  proof (cases "?m = 12")
    case True
    then have y': "?y + 1 \<le> 9999" using ny y by simp
    have mk: "make_date (?y + 1) 1 1 = Inr (Date (?y + 1) 1 1)"
      using y y' by (simp add: make_date_def valid_date_def days_in_month_def dim_m_def)
    have "toordinal (Date (?y + 1) 1 1) + - 1 = toordinal ?last"
      using pre_m_december [of "is_leap ?y"]
      by (simp add: toordinal_def days_before_year_Suc days_before_month_def days_in_month_def
          True pre_m_def)
    then show ?thesis
      using rng rt True mk by (simp add: month_end_def date_add_days_def Let_def)
  next
    case False
    then have m11: "?m < 12" using m by simp
    have mk: "make_date ?y (?m + 1) 1 = Inr (Date ?y (?m + 1) 1)"
      using y m m11 dim_m_range [of "?m + 1" "is_leap ?y"]
      by (auto simp add: make_date_def valid_date_def days_in_month_def)
    have "toordinal (Date ?y (?m + 1) 1) + - 1 = toordinal ?last"
      using pre_m_next [OF m(1) m11, of "is_leap ?y"]
      by (simp add: toordinal_def days_before_month_def days_in_month_def)
    then show ?thesis
      using rng rt False mk by (simp add: month_end_def date_add_days_def Let_def)
  qed
qed

lemma month_end_max_year: "valid_date (Date 9999 12 dd) \<Longrightarrow> month_end (Date 9999 12 dd) = Inl ValueError"
  by (simp add: month_end_def make_date_def valid_date_def)


lemma days_in_month_table:
  assumes "1 \<le> m" "m \<le> 12"
  shows "days_in_month y m =
     (if m = 2 then (if y mod 4 = 0 \<and> (y mod 100 \<noteq> 0 \<or> y mod 400 = 0) then 29 else 28)
      else if m \<in> {4, 6, 9, 11} then 30 else 31)"
  using month_cases [OF assms]
  by (elim disjE; simp add: days_in_month_def dim_m_def is_leap_def)

text \<open>
  C5 (amended): for every valid date but those of December 9999, \<open>month_end\<close> returns
  the last calendar day of the date's year and month: the day is the month's length in the
  Gregorian calendar (28, 29, 30 or 31, February having 29 days exactly in leap years),
  no later day of that month is a date, and \<open>month_end\<close> of \<open>month_start\<close> is the same
  day, so it has the date's year and month. December ends on the 31st of the same year.
\<close>

theorem month_end_last_day:
  assumes "valid_date dt" and "year dt \<noteq> 9999 \<or> month dt \<noteq> 12"
  shows "month_end dt = Inr (Date (year dt) (month dt) (days_in_month (year dt) (month dt))) \<and>
         valid_date (Date (year dt) (month dt) (days_in_month (year dt) (month dt))) \<and>
         (\<forall>dd. valid_date (Date (year dt) (month dt) dd) \<longrightarrow> dd \<le> days_in_month (year dt) (month dt)) \<and>
         days_in_month (year dt) (month dt) =
           (if month dt = 2
            then (if year dt mod 4 = 0 \<and> (year dt mod 100 \<noteq> 0 \<or> year dt mod 400 = 0)
                  then 29 else 28)
            else if month dt \<in> {4, 6, 9, 11} then 30 else 31) \<and>
         days_in_month (year dt) (month dt) \<in> {28, 29, 30, 31} \<and>
         month_start dt = Inr (Date (year dt) (month dt) 1) \<and>
         month_end (Date (year dt) (month dt) 1) = month_end dt"
proof -
  let ?y = "year dt" and ?m = "month dt"
  from assms(1) have m: "1 \<le> ?m" "?m \<le> 12" by (simp_all add: valid_date_def)
  have ny: "\<not> (?y = 9999 \<and> ?m = 12)" using assms(2) by simp
  have 1: "month_end dt = Inr (Date ?y ?m (days_in_month ?y ?m))"
    by (rule month_end_value [OF assms(1) ny])
  have 2: "valid_date (Date ?y ?m (days_in_month ?y ?m))"
    by (rule valid_date_last [OF assms(1)])
  have 3: "\<forall>dd. valid_date (Date ?y ?m dd) \<longrightarrow> dd \<le> days_in_month ?y ?m"
    by (simp add: valid_date_def)
  have 4: "days_in_month ?y ?m =
           (if ?m = 2 then (if ?y mod 4 = 0 \<and> (?y mod 100 \<noteq> 0 \<or> ?y mod 400 = 0) then 29 else 28)
            else if ?m \<in> {4, 6, 9, 11} then 30 else 31)"
    by (rule days_in_month_table [OF m])
  have 5: "days_in_month ?y ?m \<in> {28, 29, 30, 31}"
    unfolding days_in_month_def by (rule dim_m_range [OF m])
  have v1: "valid_date (Date ?y ?m 1)"
    using assms(1) 5 by (auto simp add: valid_date_def)
  then have 6: "month_start dt = Inr (Date ?y ?m 1)"
    by (simp add: month_start_def make_date_def)
  have 7: "month_end (Date ?y ?m 1) = month_end dt"
    using month_end_value [OF v1] ny 1 by simp
  from 1 2 3 4 5 6 7 show ?thesis by blast
qed

theorem month_end_last_day_witness:
  "month_end (Date 2024 2 10) = Inr (Date 2024 2 29) \<and>
   month_end (Date 2023 2 10) = Inr (Date 2023 2 28) \<and>
   month_end (Date 2025 12 15) = Inr (Date 2025 12 31) \<and>
   month_start (Date 2024 2 10) = Inr (Date 2024 2 1) \<and>
   month_end (Date 2024 2 1) = Inr (Date 2024 2 29)"
proof -
  have v: "valid_date (Date 2024 2 10)" "valid_date (Date 2023 2 10)" "valid_date (Date 2025 12 15)"
    by code_simp+
  have dd: "days_in_month 2024 2 = 29" "days_in_month 2023 2 = 28" "days_in_month 2025 12 = 31"
    by code_simp+
  show ?thesis
    using month_end_last_day [OF v(1)] month_end_last_day [OF v(2)] month_end_last_day [OF v(3)]
    by (simp add: dd)
qed

text \<open>
  In December 9999 the first day of the next month is in year 10000, which
  \<open>dt.replace\<close> refuses with \<open>ValueError\<close>: there \<open>month_end\<close> returns no date.
\<close>

theorem month_end_max_year_counterexample:
  "valid_date (Date 9999 12 15) \<and> month_end (Date 9999 12 15) = Inl ValueError"
  by code_simp

text \<open>
  C6 (amended): for every valid date but those of December 9999,
  \<open>days_remaining_in_month\<close> returns the days from the date to the end of its month plus
  one, which is the month's length minus the day plus one and is at least 1; on the last
  day of the month it returns 1.
\<close>

theorem days_remaining_in_month_value:
  assumes "valid_date dt" and "year dt \<noteq> 9999 \<or> month dt \<noteq> 12"
  shows "month_end dt = Inr (Date (year dt) (month dt) (days_in_month (year dt) (month dt))) \<and>
         days_remaining_in_month dt =
           Inr (date_diff_days (Date (year dt) (month dt) (days_in_month (year dt) (month dt))) dt + 1) \<and>
         days_remaining_in_month dt = Inr (days_in_month (year dt) (month dt) - day dt + 1) \<and>
         1 \<le> days_in_month (year dt) (month dt) - day dt + 1 \<and>
         days_remaining_in_month (Date (year dt) (month dt) (days_in_month (year dt) (month dt))) = Inr 1"
proof -
  let ?y = "year dt" and ?m = "month dt"
  let ?last = "Date ?y ?m (days_in_month ?y ?m)"
  have ny: "\<not> (?y = 9999 \<and> ?m = 12)" using assms(2) by simp
  have 1: "month_end dt = Inr ?last"
    by (rule month_end_value [OF assms(1) ny])
  have 2: "days_remaining_in_month dt = Inr (date_diff_days ?last dt + 1)"
    by (simp add: days_remaining_in_month_def 1)
  have "dt = Date ?y ?m (day dt)" by simp
  then have diff: "date_diff_days ?last dt = days_in_month ?y ?m - day dt"
    by (simp add: date_diff_days_def toordinal_def)
  have 4: "1 \<le> days_in_month ?y ?m - day dt + 1"
    using assms(1) by (simp add: valid_date_def)
  have vl: "valid_date ?last" by (rule valid_date_last [OF assms(1)])
  have "month_end ?last = Inr ?last"
    using month_end_value [OF vl] ny by simp
  then have 5: "days_remaining_in_month ?last = Inr 1"
    by (simp add: days_remaining_in_month_def date_diff_days_def)
  from 1 2 4 5 diff show ?thesis by simp
qed

theorem days_remaining_in_month_value_witness:
  "days_remaining_in_month (Date 2026 1 15) = Inr 17 \<and>
   days_remaining_in_month (Date 2026 1 31) = Inr 1 \<and>
   days_remaining_in_month (Date 2024 2 29) = Inr 1"
proof -
  have v: "valid_date (Date 2026 1 15)" "valid_date (Date 2024 2 29)"
    by code_simp+
  have n: "year (Date 2026 1 15) \<noteq> 9999 \<or> month (Date 2026 1 15) \<noteq> 12"
    "year (Date 2024 2 29) \<noteq> 9999 \<or> month (Date 2024 2 29) \<noteq> 12"
    by simp_all
  have dd: "days_in_month 2026 1 = 31" "days_in_month 2024 2 = 29"
    by code_simp+
  note a = days_remaining_in_month_value [OF v(1) n(1), unfolded date.sel dd]
  note b = days_remaining_in_month_value [OF v(2) n(2), unfolded date.sel dd]
  have 1: "days_remaining_in_month (Date 2026 1 15) = Inr 17"
    using a [THEN conjunct2, THEN conjunct2, THEN conjunct1] by simp
  have 2: "days_remaining_in_month (Date 2026 1 31) = Inr 1"
    using a [THEN conjunct2, THEN conjunct2, THEN conjunct2, THEN conjunct2] .
  have 3: "days_remaining_in_month (Date 2024 2 29) = Inr 1"
    using b [THEN conjunct2, THEN conjunct2, THEN conjunct2, THEN conjunct2] .
  from 1 2 3 show ?thesis by simp
qed

text \<open>
  In December 9999 \<open>month_end\<close> raises, and so does \<open>days_remaining_in_month\<close>.
\<close>

theorem days_remaining_max_year_counterexample:
  "valid_date (Date 9999 12 31) \<and> days_remaining_in_month (Date 9999 12 31) = Inl ValueError"
  by code_simp

subsection \<open>Evaluating the model\<close>

text \<open>The definitions that the simplifier unfolds to run the model on a concrete input.\<close>

lemmas dec_eval = d_def d_app_def input_decimal_parse_def parse_decimal_def parse_number_def
  parse_special_def parse_exponent_def split_sign_def py_strip_def is_space_def is_digit_def
  digit_val_def int_of_digits_def quantize_def rescale_def round_div_def ndigits.simps prec_def
  replace_comma_def Let_def

lemmas date_eval = parse_date_def match_month_def match_day_def nonzero_digit_def make_date_def
  valid_date_def days_in_month_def dim_m_def is_leap_def py_strip_def is_space_def is_digit_def
  digit_val_def int_of_digits_def date_le_def

lemmas arith_eval = dec_add_def dec_sub_def check_nans_def copy_negate_def signed_def dec_fix_def
  ndigits.simps prec_def Let_def

lemmas div_eval = per_day_of_def dec_truediv_def dec_of_int_def check_nans_def py_bind_def
  quantize_def rescale_def round_div_def ndigits.simps prec_def dec_fix_def Let_def
  strip_zeros.simps

lemma digit_char_eval:
  "digit_char 0 = CHR ''0''" "digit_char 1 = CHR ''1''" "digit_char 2 = CHR ''2''"
  "digit_char 3 = CHR ''3''" "digit_char 4 = CHR ''4''" "digit_char 5 = CHR ''5''"
  "digit_char 6 = CHR ''6''" "digit_char 7 = CHR ''7''" "digit_char 8 = CHR ''8''"
  "digit_char 9 = CHR ''9''" "digit_char (Suc 0) = CHR ''1''"
  by code_simp+

lemmas str_eval = str_decimal_def fmt_money_def format_2f_def sign_str_def str_nat.simps
  digit_char_eval group3_def pad2_def rescale_def Let_def

subsection \<open>The worked example\<close>

lemma example_amounts:
  "d ''50000.00'' = Inr (Finite False 5000000 (- 2))"
  "d ''2000.00'' = Inr (Finite False 200000 (- 2))"
  "d ''15000.00'' = Inr (Finite False 1500000 (- 2))"
  by (simp_all add: dec_eval)

lemma example_dates:
  "parse_date ''2026-01-10'' = Inr (Date 2026 1 10)"
  "parse_date ''2026-01-05'' = Inr (Date 2026 1 5)"
  "parse_date ''2025-12-20'' = Inr (Date 2025 12 20)"
  by (simp_all add: date_eval)

lemma example_month:
  "month_start (Date 2026 1 15) = Inr (Date 2026 1 1)"
  "month_end (Date 2026 1 15) = Inr (Date 2026 1 31)"
  "days_remaining_in_month (Date 2026 1 15) = Inr 17"
  "month_key (Date 2026 1 15) = ''2026-01''"
  by code_simp+

lemma example_base:
  "sum_month ''2026-01'' (Finite False 0 0) (monthly_incomes example_state) =
     Inr (Finite False 5000000 (- 2))"
  by (simp add: example_state_def example_amounts py_bind_def arith_eval)

lemma example_extra:
  "sum_window (Date 2026 1 1) (Date 2026 1 31) (Finite False 0 0)
     (map (\<lambda>row. (x_dt row, x_amount row)) (extra_incomes example_state)) =
     Inr (Finite False 200000 (- 2))"
  by (simp add: example_state_def example_amounts example_dates py_bind_def arith_eval date_le_def)

lemma example_expenses:
  "sum_window (Date 2026 1 1) (Date 2026 1 31) (Finite False 0 0)
     (map (\<lambda>row. (e_dt row, e_amount row)) (expenses example_state)) =
     Inr (Finite False 1500000 (- 2))"
  by (simp add: example_state_def example_amounts example_dates py_bind_def arith_eval date_le_def)

lemma example_totals:
  "totals_for_month example_state (Date 2026 1 15) =
     Inr (Finite False 5000000 (- 2), Finite False 200000 (- 2), Finite False 1500000 (- 2))"
  by (simp add: totals_for_month_def example_month example_base example_extra example_expenses
      py_bind_def quantize_def rescale_def ndigits.simps prec_def)

lemma example_per_day:
  "per_day_of (Finite False 3700000 (- 2)) 17 = Inr (Finite False 217647 (- 2))"
  by (simp add: div_eval)

lemma example_remaining:
  "remaining_and_per_day example_state (Date 2026 1 15) =
     Inr (Finite False 3700000 (- 2), Finite False 217647 (- 2), 17)"
  by (simp add: remaining_and_per_day_def example_totals example_month example_per_day
      py_bind_def arith_eval quantize_def rescale_def)

lemma example_strings:
  "str_decimal (Finite False 5000000 (- 2)) = ''50000.00''"
  "str_decimal (Finite False 200000 (- 2)) = ''2000.00''"
  "str_decimal (Finite False 1500000 (- 2)) = ''15000.00''"
  "str_decimal (Finite False 3700000 (- 2)) = ''37000.00''"
  "str_decimal (Finite False 217647 (- 2)) = ''2176.47''"
  by (simp_all add: str_eval)

text \<open>
  C1: on the example ledger and today = 2026-01-15, \<open>totals_for_month\<close> yields the base
  income 50000.00, the extra income 2000.00 and the expenses 15000.00 (the expense of
  December is outside the month), and \<open>remaining_and_per_day\<close> yields the remaining
  37000.00, 17 days left and 2176.47 per day.
\<close>

theorem example_end_to_end:
  "totals_for_month example_state (Date 2026 1 15) =
     Inr (Finite False 5000000 (- 2), Finite False 200000 (- 2), Finite False 1500000 (- 2)) \<and>
   remaining_and_per_day example_state (Date 2026 1 15) =
     Inr (Finite False 3700000 (- 2), Finite False 217647 (- 2), 17) \<and>
   map str_decimal [Finite False 5000000 (- 2), Finite False 200000 (- 2),
       Finite False 1500000 (- 2), Finite False 3700000 (- 2), Finite False 217647 (- 2)] =
     [''50000.00'', ''2000.00'', ''15000.00'', ''37000.00'', ''2176.47''] \<and>
   monthly_incomes example_state =
     [\<lparr>i_person = ''Ana'', i_amount = ''50000.00'', i_month = ''2026-01''\<rparr>] \<and>
   extra_incomes example_state =
     [\<lparr>x_person = ''Ana'', x_amount = ''2000.00'', x_dt = ''2026-01-10'', x_note = []\<rparr>] \<and>
   expenses example_state =
     [\<lparr>e_amount = ''15000.00'', e_category = ''Comida'', e_dt = ''2026-01-05'', e_note = []\<rparr>,
      \<lparr>e_amount = ''5000.00'', e_category = ''Comida'', e_dt = ''2025-12-20'', e_note = []\<rparr>]"
  using example_totals example_remaining example_strings
  by (simp add: example_state_def)

subsection \<open>Monthly incomes\<close>

text \<open>The invariant of the monthly incomes: at most one row for a person and a month.\<close>

lemma replace_amount_None:
  "replace_amount p mk a rows = None \<longleftrightarrow> (\<forall>row \<in> set rows. \<not> (i_person row = p \<and> i_month row = mk))"
  by (induction rows) auto

lemma replace_amount_keys:
  "replace_amount p mk a rows = Some rows' \<Longrightarrow>
     map (\<lambda>row. (i_person row, i_month row)) rows' = map (\<lambda>row. (i_person row, i_month row)) rows"
  by (induction rows arbitrary: rows') (auto split: if_splits)

lemma replace_amount_distinct:
  assumes "replace_amount p mk a rows = Some rows'"
    and "distinct (map (\<lambda>row. (i_person row, i_month row)) rows)"
  shows "rows' = map (\<lambda>row. if i_person row = p \<and> i_month row = mk then row\<lparr>i_amount := a\<rparr> else row) rows"
  using assms
proof (induction rows arbitrary: rows')
  case Nil
  then show ?case by simp
next
  case (Cons row rows)
  show ?case
  proof (cases "i_person row = p \<and> i_month row = mk")
    case True
    then have "\<forall>r \<in> set rows. \<not> (i_person r = p \<and> i_month r = mk)"
      using Cons.prems(2) by (auto simp add: image_iff)
    then have "map (\<lambda>row. if i_person row = p \<and> i_month row = mk then row\<lparr>i_amount := a\<rparr> else row) rows = rows"
      by (induction rows) auto
    then show ?thesis using True Cons.prems(1) by auto
  next
    case False
    then show ?thesis using Cons by (auto split: if_splits)
  qed
qed

text \<open>
  C2: \<open>set_monthly_income\<close> keeps the invariant that the monthly incomes hold at most one
  row for a person and a month. When a row of the person and month exists, its amount is
  overwritten in place, every other row and the order staying as they were; otherwise one
  new row is appended. After two calls for the same person and month there is exactly one
  row for them, and it holds the amount of the second call. The other fields of the state
  are not touched.
\<close>

theorem set_monthly_income_upsert:
  assumes "distinct (map (\<lambda>row. (i_person row, i_month row)) (monthly_incomes st))"
  shows "distinct (map (\<lambda>row. (i_person row, i_month row))
           (monthly_incomes (set_monthly_income st p amt mk))) \<and>
         monthly_incomes (set_monthly_income st p amt mk) =
           (if \<exists>row \<in> set (monthly_incomes st). i_person row = p \<and> i_month row = mk
            then map (\<lambda>row. if i_person row = p \<and> i_month row = mk
                            then row\<lparr>i_amount := str_decimal amt\<rparr> else row) (monthly_incomes st)
            else monthly_incomes st @ [\<lparr>i_person = p, i_amount = str_decimal amt, i_month = mk\<rparr>]) \<and>
         filter (\<lambda>row. i_person row = p \<and> i_month row = mk)
           (monthly_incomes (set_monthly_income (set_monthly_income st p amt mk) p amt2 mk)) =
           [\<lparr>i_person = p, i_amount = str_decimal amt2, i_month = mk\<rparr>] \<and>
         categories (set_monthly_income st p amt mk) = categories st \<and>
         people (set_monthly_income st p amt mk) = people st \<and>
         extra_incomes (set_monthly_income st p amt mk) = extra_incomes st \<and>
         expenses (set_monthly_income st p amt mk) = expenses st"
proof -
  let ?key = "\<lambda>row. (i_person row, i_month row)"
  let ?hit = "\<lambda>row. i_person row = p \<and> i_month row = mk"
  have shape: "monthly_incomes (set_monthly_income s p a mk) =
      (if \<exists>row \<in> set (monthly_incomes s). ?hit row
       then map (\<lambda>row. if ?hit row then row\<lparr>i_amount := str_decimal a\<rparr> else row) (monthly_incomes s)
       else monthly_incomes s @ [\<lparr>i_person = p, i_amount = str_decimal a, i_month = mk\<rparr>])"
    if "distinct (map ?key (monthly_incomes s))" for s a
  proof (cases "replace_amount p mk (str_decimal a) (monthly_incomes s)")
    case None
    then show ?thesis
      using replace_amount_None [of p mk "str_decimal a" "monthly_incomes s"]
      by (simp add: set_monthly_income_def)
  next
    case (Some rows')
    then have "\<exists>row \<in> set (monthly_incomes s). ?hit row"
      using replace_amount_None [of p mk "str_decimal a" "monthly_incomes s"] by auto
    then show ?thesis
      using replace_amount_distinct [OF Some that] Some by (simp add: set_monthly_income_def)
  qed
  have keep: "distinct (map ?key (monthly_incomes (set_monthly_income s p a mk)))"
    if "distinct (map ?key (monthly_incomes s))" for s a
  proof (cases "replace_amount p mk (str_decimal a) (monthly_incomes s)")
    case None
    then have "(p, mk) \<notin> set (map ?key (monthly_incomes s))"
      using replace_amount_None [of p mk "str_decimal a" "monthly_incomes s"] by auto
    then show ?thesis using that None by (simp add: set_monthly_income_def)
  next
    case (Some rows')
    then show ?thesis
      using replace_amount_keys [OF Some] that by (simp add: set_monthly_income_def)
  qed
  have one: "filter ?hit (monthly_incomes (set_monthly_income s p a mk)) =
      [\<lparr>i_person = p, i_amount = str_decimal a, i_month = mk\<rparr>]"
    if d: "distinct (map ?key (monthly_incomes s))" for s a
  proof (cases "\<exists>row \<in> set (monthly_incomes s). ?hit row")
    case False
    then have "filter ?hit (monthly_incomes s) = []" by (auto simp add: filter_empty_conv)
    then show ?thesis using shape [OF d, of a] False by simp
  next
    case True
    have "filter ?hit (map (\<lambda>row. if ?hit row then row\<lparr>i_amount := str_decimal a\<rparr> else row) rows) =
          [\<lparr>i_person = p, i_amount = str_decimal a, i_month = mk\<rparr>]"
      if "distinct (map ?key rows)" "\<exists>row \<in> set rows. ?hit row" for rows
      using that
    proof (induction rows)
      case Nil
      then show ?case by simp
    next
      case (Cons row rows)
      show ?case
      proof (cases "?hit row")
        case True
        then have no: "\<forall>r \<in> set rows. \<not> ?hit r"
          using Cons.prems(1) by (auto simp add: image_iff)
        then have "filter ?hit (map (\<lambda>row. if ?hit row then row\<lparr>i_amount := str_decimal a\<rparr> else row) rows) = []"
          by (auto simp add: filter_empty_conv)
        then show ?thesis using True by simp
      next
        case False
        then show ?thesis using Cons by auto
      qed
    qed
    from this [OF d True] show ?thesis using shape [OF d, of a] True by simp
  qed
  have other: "categories (set_monthly_income st p amt mk) = categories st"
    "people (set_monthly_income st p amt mk) = people st"
    "extra_incomes (set_monthly_income st p amt mk) = extra_incomes st"
    "expenses (set_monthly_income st p amt mk) = expenses st"
    by (simp_all add: set_monthly_income_def Let_def split: option.splits)
  show ?thesis
    using keep [OF assms, of amt] shape [OF assms, of amt] one [OF keep [OF assms, of amt], of amt2] other
    by simp
qed

theorem set_monthly_income_upsert_witness:
  "monthly_incomes (set_monthly_income (set_monthly_income example_state ''Ana''
       (Finite False 100000 (- 2)) ''2026-01'') ''Ana'' (Finite False 250050 (- 2)) ''2026-01'') =
     [\<lparr>i_person = ''Ana'', i_amount = ''2500.50'', i_month = ''2026-01''\<rparr>] \<and>
   monthly_incomes (set_monthly_income example_state ''Luis'' (Finite False 100000 (- 2)) ''2026-01'') =
     [\<lparr>i_person = ''Ana'', i_amount = ''50000.00'', i_month = ''2026-01''\<rparr>,
      \<lparr>i_person = ''Luis'', i_amount = ''1000.00'', i_month = ''2026-01''\<rparr>]"
proof -
  have s: "str_decimal (Finite False 100000 (- 2)) = ''1000.00''"
    "str_decimal (Finite False 250050 (- 2)) = ''2500.50''"
    by (simp_all add: str_eval)
  have d0: "distinct (map (\<lambda>row. (i_person row, i_month row)) (monthly_incomes example_state))"
    by (simp add: example_state_def)
  note a = set_monthly_income_upsert [OF d0, of "''Ana''" "Finite False 100000 (- 2)" "''2026-01''"]
  note b = set_monthly_income_upsert [OF d0, of "''Luis''" "Finite False 100000 (- 2)" "''2026-01''"]
  have d1: "distinct (map (\<lambda>row. (i_person row, i_month row))
      (monthly_incomes (set_monthly_income example_state ''Ana'' (Finite False 100000 (- 2)) ''2026-01'')))"
    using a by blast
  have 1: "monthly_incomes (set_monthly_income example_state ''Ana'' (Finite False 100000 (- 2)) ''2026-01'') =
      [\<lparr>i_person = ''Ana'', i_amount = ''1000.00'', i_month = ''2026-01''\<rparr>]"
    using a [THEN conjunct2, THEN conjunct1] by (simp add: example_state_def s)
  have 2: "monthly_incomes (set_monthly_income (set_monthly_income example_state ''Ana''
       (Finite False 100000 (- 2)) ''2026-01'') ''Ana'' (Finite False 250050 (- 2)) ''2026-01'') =
     [\<lparr>i_person = ''Ana'', i_amount = ''2500.50'', i_month = ''2026-01''\<rparr>]"
    using set_monthly_income_upsert [OF d1, of "''Ana''" "Finite False 250050 (- 2)" "''2026-01''",
        THEN conjunct2, THEN conjunct1]
    by (simp add: 1 s)
  have 3: "monthly_incomes (set_monthly_income example_state ''Luis'' (Finite False 100000 (- 2)) ''2026-01'') =
     [\<lparr>i_person = ''Ana'', i_amount = ''50000.00'', i_month = ''2026-01''\<rparr>,
      \<lparr>i_person = ''Luis'', i_amount = ''1000.00'', i_month = ''2026-01''\<rparr>]"
    using b [THEN conjunct2, THEN conjunct1] by (simp add: example_state_def s)
  from 2 3 show ?thesis by simp
qed

subsection \<open>Digits and powers of ten\<close>

lemma ndigits_pos: "0 < ndigits n"
  by (subst ndigits.simps) simp

lemma ndigits_less_power: "n < 10 ^ ndigits n"
proof (induction n rule: ndigits.induct)
  case (1 n)
  show ?case
  proof (cases "n < 10")
    case True
    then show ?thesis by (subst ndigits.simps) simp
  next
    case False
    then have "n div 10 < 10 ^ ndigits (n div 10)" using 1 by simp
    then have "n < 10 * 10 ^ ndigits (n div 10)" by simp
    then show ?thesis using False by (subst ndigits.simps) simp
  qed
qed

lemma ndigits_ge_power: "0 < n \<Longrightarrow> 10 ^ (ndigits n - 1) \<le> n"
proof (induction n rule: ndigits.induct)
  case (1 n)
  show ?case
  proof (cases "n < 10")
    case True
    then show ?thesis using 1(2) by (subst ndigits.simps) simp
  next
    case False
    then have "10 ^ (ndigits (n div 10) - 1) \<le> n div 10" using 1 by simp
    then have "10 * 10 ^ (ndigits (n div 10) - 1) \<le> n" by simp
    moreover have "10 * (10::nat) ^ (ndigits (n div 10) - 1) = 10 ^ ndigits (n div 10)"
      using ndigits_pos [of "n div 10"] by (cases "ndigits (n div 10)") simp_all
    ultimately show ?thesis using False by (subst ndigits.simps) simp
  qed
qed

lemma ndigits_le_iff: "0 < k \<Longrightarrow> ndigits n \<le> k \<longleftrightarrow> n < 10 ^ k"
proof
  assume "ndigits n \<le> k"
  then have "(10::nat) ^ ndigits n \<le> 10 ^ k" by (simp add: power_increasing)
  then show "n < 10 ^ k" using ndigits_less_power [of n] by (rule order.strict_trans2 [rotated])
next
  assume k: "0 < k" and n: "n < 10 ^ k"
  show "ndigits n \<le> k"
  proof (cases "n = 0")
    case True
    then show ?thesis using k by (subst ndigits.simps) simp
  next
    case False
    then have "10 ^ (ndigits n - 1) \<le> n" using ndigits_ge_power by simp
    then have "(10::nat) ^ (ndigits n - 1) < 10 ^ k" using n by (rule order.strict_trans1)
    then have "ndigits n - 1 < k" by (rule power_less_imp_less_exp [rotated]) simp
    then show ?thesis by simp
  qed
qed

lemma ndigits_gt_iff: "0 < k \<Longrightarrow> k < ndigits n \<longleftrightarrow> 10 ^ k \<le> n"
  using ndigits_le_iff [of k n] by auto

subsection \<open>Rounding\<close>



lemma round_div_ge_div: "c div m \<le> round_div rnd c m"
  by (cases rnd) (simp_all add: round_div_def Let_def)

lemma round_div_zero: "0 < m \<Longrightarrow> round_div rnd 0 m = 0"
  by (cases rnd) (simp_all add: round_div_def Let_def)

lemma rescale_zero: "rescale rnd 0 e t = 0"
  by (simp add: rescale_def round_div_zero)

lemma rescale_large:
  assumes c: "0 < c" and big: "int (ndigits c) + e > 26"
  shows "10 ^ 28 \<le> rescale rnd c e (- 2)"
proof -
  have lo: "10 ^ (ndigits c - 1) \<le> c" by (rule ndigits_ge_power [OF c])
  show ?thesis
  proof (cases "e \<ge> - 2")
    case True
    have "28 \<le> (ndigits c - 1) + nat (e + 2)"
      using big True ndigits_pos [of c] by linarith
    then have "(10::nat) ^ 28 \<le> 10 ^ ((ndigits c - 1) + nat (e + 2))"
      by (intro power_increasing) simp_all
    also have "\<dots> = 10 ^ (ndigits c - 1) * 10 ^ nat (e + 2)"
      by (simp add: power_add)
    also have "\<dots> \<le> c * 10 ^ nat (e + 2)"
      using lo by (rule mult_le_mono1)
    finally show ?thesis using True by (simp add: rescale_def)
  next
    case False
    define k where "k = nat (- 2 - e)"
    have "28 + k \<le> ndigits c - 1"
      using big False ndigits_pos [of c] unfolding k_def by linarith
    then have "(10::nat) ^ (28 + k) \<le> 10 ^ (ndigits c - 1)"
      by (intro power_increasing) simp_all
    then have "(10::nat) ^ 28 * 10 ^ k \<le> c"
      using lo by (simp add: power_add)
    then have "(10::nat) ^ 28 \<le> c div 10 ^ k"
      by (simp add: less_eq_div_iff_mult_less_eq)
    also have "\<dots> \<le> round_div rnd c (10 ^ k)"
      by (rule round_div_ge_div)
    finally show ?thesis using False by (simp add: rescale_def k_def)
  qed
qed

lemma quantize_finite:
  "quantize rnd (Finite s c e) =
     (if rescale rnd c e (- 2) < 10 ^ 28 then Inr (Finite s (rescale rnd c e (- 2)) (- 2))
      else Inl InvalidOperation)"
proof (cases "c = 0")
  case True
  then show ?thesis by (simp add: quantize_def rescale_zero)
next
  case False
  then have c: "0 < c" by simp
  show ?thesis
  proof (cases "int (ndigits c) + e > 26")
    case True
    then have "\<not> rescale rnd c e (- 2) < 10 ^ 28"
      using rescale_large [OF c True, of rnd] by simp
    then show ?thesis using True False by (simp add: quantize_def prec_def)
  next
    case F: False
    have "ndigits (rescale rnd c e (- 2)) > 28 \<longleftrightarrow> \<not> rescale rnd c e (- 2) < 10 ^ 28"
      using ndigits_gt_iff [of 28 "rescale rnd c e (- 2)"] by auto
    then show ?thesis using F False by (simp add: quantize_def prec_def Let_def)
  qed
qed




subsection \<open>Numbers as text\<close>

lemma is_digit_digit_char: "k < 10 \<Longrightarrow> is_digit (digit_char k)"
  by (simp add: is_digit_def digit_char_def)

lemma digit_val_digit_char: "k < 10 \<Longrightarrow> digit_val (digit_char k) = k"
  by (simp add: digit_val_def digit_char_def)

lemma is_digit_not_space: "is_digit c \<Longrightarrow> \<not> is_space c"
  by (auto simp add: is_digit_def is_space_def)

lemma str_nat_digits: "list_all is_digit (str_nat n)"
proof (induction n rule: str_nat.induct)
  case (1 n)
  then show ?case
    by (subst str_nat.simps) (simp add: is_digit_digit_char)
qed

lemma length_str_nat: "length (str_nat n) = ndigits n"
proof (induction n rule: str_nat.induct)
  case (1 n)
  then show ?case
    by (subst str_nat.simps, subst ndigits.simps) simp
qed

lemma str_nat_nonempty: "str_nat n \<noteq> []"
  using length_str_nat [of n] ndigits_pos [of n] by auto

lemma foldl_digits:
  "foldl (\<lambda>n c. 10 * n + digit_val c) a ys =
     a * 10 ^ length ys + foldl (\<lambda>n c. 10 * n + digit_val c) 0 ys"
proof (induction ys arbitrary: a)
  case Nil
  then show ?case by simp
next
  case (Cons y ys)
  show ?case
    using Cons [of "10 * a + digit_val y"] Cons [of "digit_val y"]
    by (simp add: algebra_simps)
qed

lemma int_of_digits_append:
  "int_of_digits (xs @ ys) = int_of_digits xs * 10 ^ length ys + int_of_digits ys"
  unfolding int_of_digits_def foldl_append by (rule foldl_digits)

lemma int_of_digits_str_nat: "int_of_digits (str_nat n) = n"
proof (induction n rule: str_nat.induct)
  case (1 n)
  show ?case
  proof (cases "n < 10")
    case True
    then show ?thesis
      by (subst str_nat.simps) (simp add: int_of_digits_def digit_val_digit_char)
  next
    case False
    then have "int_of_digits (str_nat (n div 10)) = n div 10" using 1 by simp
    then show ?thesis using False
      by (subst str_nat.simps)
        (simp add: int_of_digits_append, simp add: int_of_digits_def digit_val_digit_char)
  qed
qed

lemma int_of_digits_zeros: "int_of_digits (replicate k (CHR ''0'') @ ds) = int_of_digits ds"
proof -
  have "int_of_digits (replicate k (CHR ''0'')) = 0"
    by (induction k) (simp_all add: int_of_digits_append replicate_append_same [symmetric]
        del: replicate_Suc, simp_all add: int_of_digits_def digit_val_def)
  then show ?thesis by (simp add: int_of_digits_append)
qed


lemma py_strip_id:
  assumes "s \<noteq> []" "\<not> is_space (hd s)" "\<not> is_space (last s)"
  shows "py_strip s = s"
proof -
  have 1: "dropWhile is_space s = s"
    using assms(1,2) by (cases s) simp_all
  have "rev s \<noteq> []" "\<not> is_space (hd (rev s))"
    using assms(1,3) by (simp_all add: hd_rev)
  then have "dropWhile is_space (rev s) = rev s"
    by (cases "rev s") simp_all
  then show ?thesis by (simp add: py_strip_def 1)
qed

lemma py_strip_Cons:
  assumes "\<not> is_space c"
  shows "\<exists>r'. py_strip (c # r) = c # r'"
proof -
  have 1: "py_strip (c # r) = rev (dropWhile is_space (rev r @ [c]))"
    using assms by (simp add: py_strip_def)
  show ?thesis
  proof (cases "\<forall>x \<in> set (rev r). is_space x")
    case True
    then have "dropWhile is_space (rev r @ [c]) = [c]"
      using assms by (simp add: dropWhile_append)
    then show ?thesis by (simp add: 1)
  next
    case False
    then have "dropWhile is_space (rev r @ [c]) = dropWhile is_space (rev r) @ [c]"
      by (simp add: dropWhile_append)
    then show ?thesis by (simp add: 1)
  qed
qed

lemma parse_decimal_plain:
  assumes ip: "list_all is_digit ip" "ip \<noteq> []" and fp: "list_all is_digit fp" "fp \<noteq> []"
  shows "parse_decimal (sign_str s @ ip @ CHR ''.'' # fp) =
         Some (Finite s (int_of_digits (ip @ fp)) (- int (length fp)))"
proof -
  let ?u = "ip @ CHR ''.'' # fp"
  let ?t = "sign_str s @ ?u"
  have dig: "\<not> is_space c \<and> c \<noteq> CHR ''_'' \<and> c \<noteq> CHR ''-'' \<and> c \<noteq> CHR ''+'' \<and> c \<noteq> CHR ''.''"
    if "is_digit c" for c
    using that by (auto simp add: is_digit_def is_space_def)
  have hd_ip: "is_digit (hd ip)" using ip by (cases ip) simp_all
  have last_fp: "is_digit (last fp)" using fp by (induction fp) (auto split: if_splits)
  have t_ne: "?t \<noteq> []" by simp
  have hd_t: "\<not> is_space (hd ?t)"
    using hd_ip dig ip(2) by (simp add: sign_str_def is_space_def hd_append)
  have last_t: "\<not> is_space (last ?t)"
    using last_fp dig fp(2) by simp
  have strip: "py_strip ?t = ?t"
    by (rule py_strip_id [OF t_ne hd_t last_t])
  have "\<forall>c \<in> set ?t. c \<noteq> CHR ''_''"
    using ip(1) fp(1) dig by (auto simp add: sign_str_def list_all_iff)
  then have filt: "filter (\<lambda>c. c \<noteq> CHR ''_'') ?t = ?t"
    by (simp only: filter_id_conv)
  have sign: "split_sign ?t = (s, ?u)"
  proof (cases s)
    case True
    then show ?thesis by (simp add: split_sign_def sign_str_def)
  next
    case False
    obtain a ip' where "ip = a # ip'" using ip(2) by (cases ip) auto
    then show ?thesis using False hd_ip dig [of a] by (simp add: split_sign_def sign_str_def)
  qed
  have tw: "takeWhile is_digit ?u = ip" "dropWhile is_digit ?u = CHR ''.'' # fp"
    using ip(1) by (simp_all add: list_all_iff takeWhile_append2 dropWhile_append2 is_digit_def)
  have tw2: "takeWhile is_digit fp = fp" "dropWhile is_digit fp = []"
    using fp(1) by (simp_all add: list_all_iff)
  have num: "parse_number ?u = Some (int_of_digits (ip @ fp), - int (length fp))"
    using ip(2) by (simp add: parse_number_def tw tw2)
  show ?thesis
    unfolding parse_decimal_def strip filt sign by (simp add: num)
qed

lemma str_decimal_two_places:
  "\<exists>ip fp. str_decimal (Finite s c (- 2)) = sign_str s @ ip @ CHR ''.'' # fp \<and>
     list_all is_digit ip \<and> ip \<noteq> [] \<and> list_all is_digit fp \<and> length fp = 2 \<and>
     int_of_digits (ip @ fp) = c"
proof (cases "ndigits c \<le> 2")
  case True
  let ?fp = "replicate (2 - ndigits c) (CHR ''0'') @ str_nat c"
  have "str_decimal (Finite s c (- 2)) = sign_str s @ ''0'' @ CHR ''.'' # ?fp"
    using True by (simp add: str_decimal_def Let_def length_str_nat nat_diff_distrib)
  moreover have "list_all is_digit ?fp"
    using str_nat_digits [of c] by (auto simp add: list_all_iff is_digit_def)
  moreover have "length ?fp = 2" using True by (simp add: length_str_nat)
  moreover have "int_of_digits (''0'' @ ?fp) = c"
    using int_of_digits_zeros [of "Suc (2 - ndigits c)" "str_nat c"]
    by (simp add: int_of_digits_str_nat)
  moreover have "list_all is_digit ''0''" by (simp add: is_digit_def)
  ultimately show ?thesis by blast
next
  case False
  let ?ds = "str_nat c"
  let ?ip = "take (ndigits c - 2) ?ds"
  let ?fp = "drop (ndigits c - 2) ?ds"
  have "str_decimal (Finite s c (- 2)) = sign_str s @ ?ip @ CHR ''.'' # ?fp"
    using False by (simp add: str_decimal_def Let_def length_str_nat nat_diff_distrib)
  moreover have "list_all is_digit ?ip" "list_all is_digit ?fp"
    using str_nat_digits [of c]
    by (auto simp add: list_all_iff dest: in_set_takeD in_set_dropD)
  moreover have "?ip \<noteq> []" using False str_nat_nonempty [of c] by (simp add: length_str_nat)
  moreover have "length ?fp = 2" using False by (simp add: length_str_nat)
  moreover have "int_of_digits (?ip @ ?fp) = c" by (simp add: int_of_digits_str_nat)
  ultimately show ?thesis by blast
qed

lemma parse_str_decimal:
  "parse_decimal (str_decimal (Finite s c (- 2))) = Some (Finite s c (- 2))"
proof -
  obtain ip fp where *: "str_decimal (Finite s c (- 2)) = sign_str s @ ip @ CHR ''.'' # fp"
    "list_all is_digit ip" "ip \<noteq> []" "list_all is_digit fp" "length fp = 2"
    "int_of_digits (ip @ fp) = c"
    using str_decimal_two_places by blast
  have "fp \<noteq> []" using *(5) by auto
  from parse_decimal_plain [OF *(2,3,4) this, of s] show ?thesis
    by (simp add: * )
qed

lemma no_comma_str_decimal: "replace_comma (str_decimal (Finite s c (- 2))) = str_decimal (Finite s c (- 2))"
proof -
  obtain ip fp where *: "str_decimal (Finite s c (- 2)) = sign_str s @ ip @ CHR ''.'' # fp"
    "list_all is_digit ip" "list_all is_digit fp"
    using str_decimal_two_places by blast
  have "c \<noteq> CHR '',''" if "is_digit c" for c using that by (auto simp add: is_digit_def)
  then have "\<forall>c \<in> set (sign_str s @ ip @ CHR ''.'' # fp). c \<noteq> CHR '',''"
    using *(2,3) by (auto simp add: sign_str_def list_all_iff)
  then show ?thesis
    unfolding * replace_comma_def by (intro map_idI) auto
qed

lemma parse_decimal_dollar: "parse_decimal (CHR ''$'' # r) = None"
proof -
  have ns: "\<not> is_space (CHR ''$'')" by (simp add: is_space_def)
  then obtain r' where s: "py_strip (CHR ''$'' # r) = CHR ''$'' # r'"
    using py_strip_Cons by blast
  have l: "lower_char (CHR ''$'') = CHR ''$''" by (simp add: lower_char_def)
  show ?thesis
    by (simp add: parse_decimal_def s split_sign_def parse_number_def parse_special_def
        is_digit_def l Let_def)
qed

lemma fmt_money_rejected:
  "d (fmt_money x) = Inl ValueError" "d_app (fmt_money x) = Inl ValueError"
  "input_decimal_parse (fmt_money x) = Inl ValueError"
proof -
  show "d (fmt_money x) = Inl ValueError"
    by (simp add: d_def fmt_money_def parse_decimal_dollar)
  show "d_app (fmt_money x) = Inl ValueError"
    by (simp add: d_app_def fmt_money_def replace_comma_def parse_decimal_dollar)
  have "\<not> is_space (CHR ''$'')" by (simp add: is_space_def)
  then obtain r' where "py_strip (CHR ''$'' # format_2f x) = CHR ''$'' # r'"
    using py_strip_Cons by blast
  then show "input_decimal_parse (fmt_money x) = Inl ValueError"
    by (simp add: input_decimal_parse_def d_def fmt_money_def replace_comma_def parse_decimal_dollar)
qed

lemma d_result_two_places:
  assumes "d v = Inr (Finite s c e)"
  shows "e = - 2 \<and> c < 10 ^ 28"
proof (cases "parse_decimal v")
  case None
  then show ?thesis using assms by (simp add: d_def)
next
  case (Some x)
  then have q: "quantize ROUND_HALF_UP x = Inr (Finite s c e)" using assms by (simp add: d_def)
  show ?thesis
  proof (cases x)
    case (Finite s' c' e')
    then show ?thesis using q by (auto simp add: quantize_finite split: if_splits)
  next
    case (Infinity s')
    then show ?thesis using q by (simp add: quantize_def)
  next
    case (NaN s' sig p)
    then show ?thesis using q by (simp add: quantize_def split: if_splits)
  qed
qed

text \<open>
  C8 (amended): what \<open>fmt_money\<close> renders, "$", the integer part in groups of three, a
  point and two decimals, is not read back: \<open>d\<close>, the form's \<open>d\<close> and the parsing of
  \<open>input_decimal\<close> raise \<open>ValueError\<close> on it for every value. The round trip that holds
  is through \<open>str\<close>, the text the ledger stores: for every two-place value \<open>y\<close> within the
  precision, as every finite result of \<open>d\<close> is, \<open>d (str y) = y\<close>.
\<close>

theorem fmt_money_not_read_back:
  "d (fmt_money x) = Inl ValueError \<and> d_app (fmt_money x) = Inl ValueError \<and>
   input_decimal_parse (fmt_money x) = Inl ValueError \<and>
   (c < 10 ^ 28 \<longrightarrow>
      d (str_decimal (Finite s c (- 2))) = Inr (Finite s c (- 2)) \<and>
      d_app (str_decimal (Finite s c (- 2))) = Inr (Finite s c (- 2))) \<and>
   (d v = Inr (Finite s c e) \<longrightarrow> e = - 2 \<and> c < 10 ^ 28) \<and>
   fmt_money (Finite s c (- 2)) =
     CHR ''$'' # sign_str s @ group3 (str_nat (c div 100)) @ ''.'' @ pad2 (c mod 100)"
proof -
  have q: "quantize ROUND_HALF_UP (Finite s c (- 2)) = Inr (Finite s c (- 2))" if "c < 10 ^ 28"
    using that by (simp add: quantize_finite rescale_def)
  have 1: "d (str_decimal (Finite s c (- 2))) = Inr (Finite s c (- 2))" if "c < 10 ^ 28"
    using q [OF that] by (simp add: d_def parse_str_decimal)
  have 2: "d_app (str_decimal (Finite s c (- 2))) = Inr (Finite s c (- 2))" if "c < 10 ^ 28"
    using q [OF that] by (simp add: d_app_def no_comma_str_decimal parse_str_decimal)
  have 3: "fmt_money (Finite s c (- 2)) =
     CHR ''$'' # sign_str s @ group3 (str_nat (c div 100)) @ ''.'' @ pad2 (c mod 100)"
    by (simp add: fmt_money_def format_2f_def rescale_def)
  show ?thesis
    using fmt_money_rejected [of x] 1 2 3 d_result_two_places [of v s c e] by blast
qed

theorem fmt_money_not_read_back_witness:
  "str_decimal (Finite False 123450 (- 2)) = ''1234.50'' \<and>
   d (str_decimal (Finite False 123450 (- 2))) = Inr (Finite False 123450 (- 2)) \<and>
   fmt_money (Finite False 123450 (- 2)) = ''$1,234.50'' \<and>
   fmt_money (Finite True 5000 (- 2)) = ''$-50.00''"
proof -
  have c: "(123450::nat) < 10 ^ 28" by simp
  note t = fmt_money_not_read_back [of "Finite False 0 0" 123450 False "''0''" 0]
  have 1: "d (str_decimal (Finite False 123450 (- 2))) = Inr (Finite False 123450 (- 2))"
    using t c by blast
  have 2: "str_decimal (Finite False 123450 (- 2)) = ''1234.50''"
    by (simp add: str_eval)
  have 3: "fmt_money (Finite False 123450 (- 2)) = ''$1,234.50''"
    "fmt_money (Finite True 5000 (- 2)) = ''$-50.00''"
    by (simp_all add: str_eval)
  from 1 2 3 show ?thesis by simp
qed

text \<open>
  The value 1234.5 is rendered as $1,234.50, and neither \<open>d\<close> accepts the rendering.
\<close>

theorem fmt_money_round_trip_counterexample:
  "d ''1234.5'' = Inr (Finite False 123450 (- 2)) \<and>
   fmt_money (Finite False 123450 (- 2)) = ''$1,234.50'' \<and>
   d ''$1,234.50'' = Inl ValueError \<and>
   d_app ''$1,234.50'' = Inl ValueError"
proof -
  have 1: "d ''1234.5'' = Inr (Finite False 123450 (- 2))"
    by (simp add: dec_eval)
  have 2: "fmt_money (Finite False 123450 (- 2)) = ''$1,234.50''"
    by (simp add: str_eval)
  have 3: "d ''$1,234.50'' = Inl ValueError" "d_app ''$1,234.50'' = Inl ValueError"
    using fmt_money_rejected(1,2) [of "Finite False 123450 (- 2)"] by (simp_all add: 2)
  from 1 2 3 show ?thesis by simp
qed

subsection \<open>Texts that are not amounts\<close>

lemma lower_char_letters:
  "lower_char (CHR ''N'') = CHR ''n''" "lower_char (CHR ''a'') = CHR ''a''"
  "lower_char (CHR ''n'') = CHR ''n''" "lower_char (CHR ''I'') = CHR ''i''"
  "lower_char (CHR ''f'') = CHR ''f''" "lower_char (CHR ''i'') = CHR ''i''"
  "lower_char (CHR ''t'') = CHR ''t''" "lower_char (CHR ''y'') = CHR ''y''"
  "lower_char (CHR ''b'') = CHR ''b''" "lower_char (CHR ''c'') = CHR ''c''"
  "lower_char (CHR ''0'') = CHR ''0''" "lower_char (CHR ''1'') = CHR ''1''"
  "lower_char (CHR ''2'') = CHR ''2''" "lower_char (CHR ''5'') = CHR ''5''"
  "lower_char (CHR '','') = CHR '',''" "lower_char (CHR ''.'') = CHR ''.''"
  by code_simp+

text \<open>
  C9: the text "NaN" is not a number, and \<open>d\<close> returns it as a value instead of raising
  \<open>ValueError\<close>; on "Infinity" \<open>d\<close> raises \<open>InvalidOperation\<close>, which is not the
  \<open>ValueError\<close> its callers catch. On "12,50" the form's \<open>d\<close> and the console's
  \<open>input_decimal\<close> return 12.50; called directly, the console's \<open>d\<close> raises \<open>ValueError\<close>.
\<close>

theorem d_not_a_number_inputs:
  "d ''NaN'' = Inr (NaN False False []) \<and>
   d_app ''NaN'' = Inr (NaN False False []) \<and>
   input_decimal_parse ''NaN'' = Inr (NaN False False []) \<and>
   d ''Infinity'' = Inl InvalidOperation \<and>
   d_app ''Infinity'' = Inl InvalidOperation \<and>
   input_decimal_parse ''Infinity'' = Inl InvalidOperation \<and>
   d ''abc'' = Inl ValueError \<and>
   d ''12,50'' = Inl ValueError \<and>
   d_app ''12,50'' = Inr (Finite False 1250 (- 2)) \<and>
   input_decimal_parse ''12,50'' = Inr (Finite False 1250 (- 2)) \<and>
   d ''12.50'' = Inr (Finite False 1250 (- 2))"
  by (simp add: dec_eval lower_char_letters fix_nan_def)

end
